theory Spec2Isabelle
  imports Complex_Main
begin

section \<open>Data model of the diagram editor\<close>

text \<open>
  The repository holds three iterations of one editor. The development follows the
  iteration with undo/redo and live connector redraw (the first document of
  \<^verbatim>\<open>src/unnamed/part_000\<close>); the handlers of \<^verbatim>\<open>src/plus_page.tsx\<close>
  that the properties refer to are embedded in a section of their own, with the prefix
  \<^verbatim>\<open>pp_\<close>.

  A JavaScript \<^verbatim>\<open>number\<close> is modelled as a real number (rounding is not
  modelled), \<^verbatim>\<open>string | null\<close> as \<^typ>\<open>string option\<close>.
\<close>

datatype EntityType = Entity | Action | Attribute

datatype Cardinality =
  ONE_AND_ONLY_ONE | ZERO_OR_ONE | ONE_OR_MANY | ZERO_OR_MANY | ONE | MANY

definition CARDINALITIES :: "Cardinality list" where
  "CARDINALITIES = [ONE_AND_ONLY_ONE, ZERO_OR_ONE, ONE_OR_MANY, ZERO_OR_MANY, ONE, MANY]"

record Entity =
  e_id :: string
  e_x :: real
  e_y :: real
  e_width :: real
  e_height :: real
  e_name :: string
  e_type :: EntityType

record Relationship =
  r_id :: string
  r_fromId :: string
  r_toId :: string
  r_startCardinality :: Cardinality
  r_endCardinality :: Cardinality

text \<open>One history entry: \<^verbatim>\<open>{ entities: Entity[], relationships: Relationship[] }\<close>.\<close>

record Snapshot =
  entities :: "Entity list"
  relationships :: "Relationship list"

record RelationshipCreation =
  active :: bool
  fromId :: "string option"

text \<open>
  The nodes of one connector in the canvas: \<^verbatim>\<open>findOne\<close> gives
  \<^verbatim>\<open>undefined\<close> for a node that is not drawn, which is \<open>None\<close> here.
\<close>

record SymbolProps =
  s_x :: real
  s_y :: real
  rotation :: real

record LineGroup =
  line_points :: "real list option"
  start_cardinality :: "SymbolProps option"
  end_cardinality :: "SymbolProps option"

text \<open>The notice shown by \<^verbatim>\<open>alert\<close> when a connection already exists.\<close>

datatype Alert = RelationshipAlreadyExists

text \<open>
  The state of the \<^verbatim>\<open>App\<close> component (its \<^verbatim>\<open>useState\<close> cells) together
  with what the handlers do outside of it: the canvas stage that
  \<^verbatim>\<open>handleDragMove\<close> writes to, and the notices shown so far. \<open>stage\<close> is
  \<open>None\<close> when \<^verbatim>\<open>getStage()\<close> gives no stage; otherwise it maps the id of a
  connector group to its nodes.
\<close>

record AppState =
  history :: "Snapshot list"
  historyIndex :: nat
  editingEntityId :: "string option"
  selectedEntityId :: "string option"
  relationshipCreation :: RelationshipCreation
  selectedRelationshipId :: "string option"
  showCardinality :: bool
  stage :: "(string \<rightharpoonup> LineGroup) option"
  alerts :: "Alert list"

text \<open>JavaScript truthiness of a \<^verbatim>\<open>string | null\<close>: null and the empty string are falsy.\<close>

definition truthy :: "string option \<Rightarrow> bool" where
  "truthy v = (case v of None \<Rightarrow> False | Some s \<Rightarrow> s \<noteq> [])"

text \<open>An argument of \<^verbatim>\<open>updateState\<close> is either an updater function or a value.\<close>

datatype 'a updater = Fn "'a \<Rightarrow> 'a" | Val 'a

fun apply_updater :: "'a updater \<Rightarrow> 'a \<Rightarrow> 'a" where
  "apply_updater (Fn f) prev = f prev"
| "apply_updater (Val v) prev = v"

section \<open>History controller\<close>

definition initialState :: AppState where
  "initialState = \<lparr> history = [\<lparr> entities = [], relationships = [] \<rparr>], historyIndex = 0,
     editingEntityId = None, selectedEntityId = None,
     relationshipCreation = \<lparr> active = False, fromId = None \<rparr>,
     selectedRelationshipId = None, showCardinality = True, stage = Some Map.empty,
     alerts = [] \<rparr>"

text \<open>
  \<^verbatim>\<open>const { entities, relationships } = history[historyIndex]\<close>: the snapshot every
  handler of one render closes over. The read is within range in every state with
  \<open>hist_ok\<close>, which holds initially and is kept by every handler.
\<close>

definition current :: "AppState \<Rightarrow> Snapshot" where
  "current c = history c ! historyIndex c"

definition hist_ok :: "AppState \<Rightarrow> bool" where
  "hist_ok c = (historyIndex c < length (history c))"

text \<open>
  A handler runs against the state \<open>c\<close> of the render that created it: every read is a
  read of \<open>c\<close>, and each \<^verbatim>\<open>setX(value)\<close> overwrites one cell of the state \<open>s\<close>
  that the next render will see. \<^verbatim>\<open>updateState\<close> therefore takes both.
\<close>

definition updateState ::
  "Entity list updater \<Rightarrow> Relationship list updater \<Rightarrow> AppState \<Rightarrow> AppState \<Rightarrow> AppState" where
  "updateState entitiesUpdater relationshipsUpdater c s =
     (let newEntities = apply_updater entitiesUpdater (entities (current c));
          newRelationships = apply_updater relationshipsUpdater (relationships (current c));
          newHistory = take (historyIndex c + 1) (history c)
      in s\<lparr> history := newHistory @ [\<lparr> entities = newEntities, relationships = newRelationships \<rparr>],
            historyIndex := length newHistory \<rparr>)"

definition handleUndo :: "AppState \<Rightarrow> AppState" where
  "handleUndo c = (if historyIndex c > 0 then c\<lparr> historyIndex := historyIndex c - 1 \<rparr> else c)"

definition handleRedo :: "AppState \<Rightarrow> AppState" where
  "handleRedo c =
     (if int (historyIndex c) < int (length (history c)) - 1
      then c\<lparr> historyIndex := historyIndex c + 1 \<rparr> else c)"

section \<open>Geometry: \<^verbatim>\<open>calculateRelationshipRenderProps\<close>\<close>

record Point =
  p_x :: real
  p_y :: real

record BestPoints =
  best_from :: Point
  best_to :: Point

record RenderProps =
  points :: "real list"
  startSymbolProps :: SymbolProps
  endSymbolProps :: SymbolProps

definition getAnchors :: "Entity \<Rightarrow> Point list" where
  "getAnchors e =
     [\<lparr> p_x = e_x e + e_width e / 2, p_y = e_y e \<rparr>,
      \<lparr> p_x = e_x e + e_width e, p_y = e_y e + e_height e / 2 \<rparr>,
      \<lparr> p_x = e_x e + e_width e / 2, p_y = e_y e + e_height e \<rparr>,
      \<lparr> p_x = e_x e, p_y = e_y e + e_height e / 2 \<rparr>]"

definition hypot :: "real \<Rightarrow> real \<Rightarrow> real" where
  "hypot a b = sqrt (a\<^sup>2 + b\<^sup>2)"

text \<open>\<^verbatim>\<open>Math.atan2(y, x)\<close>, the angle of the vector \<open>(x, y)\<close> in \<open>(-\<pi>, \<pi>]\<close>, 0 at the origin.\<close>

definition atan2 :: "real \<Rightarrow> real \<Rightarrow> real" where
  "atan2 y x =
     (if 0 < x then arctan (y / x)
      else if x < 0 then (if 0 \<le> y then arctan (y / x) + pi else arctan (y / x) - pi)
      else if 0 < y then pi / 2
      else if y < 0 then - (pi / 2)
      else 0)"

text \<open>
  The search keeps \<^verbatim>\<open>minDistance\<close>, which starts as \<^verbatim>\<open>Infinity\<close> (\<open>None\<close>
  here), and \<^verbatim>\<open>bestPoints\<close>. \<open>visit\<close> is the body of the inner loop.
\<close>

definition less_minDistance :: "real \<Rightarrow> real option \<Rightarrow> bool" where
  "less_minDistance distance minDistance =
     (case minDistance of None \<Rightarrow> True | Some m \<Rightarrow> distance < m)"

definition visit :: "Point \<Rightarrow> Point \<Rightarrow> real option \<times> BestPoints \<Rightarrow> real option \<times> BestPoints" where
  "visit fromPoint toPoint st =
     (let distance = hypot (p_x fromPoint - p_x toPoint) (p_y fromPoint - p_y toPoint)
      in if less_minDistance distance (fst st)
         then (Some distance, \<lparr> best_from = fromPoint, best_to = toPoint \<rparr>)
         else st)"

primrec inner_loop ::
  "Point \<Rightarrow> Point list \<Rightarrow> real option \<times> BestPoints \<Rightarrow> real option \<times> BestPoints" where
  "inner_loop fromPoint [] st = st"
| "inner_loop fromPoint (toPoint # toAnchors) st =
     inner_loop fromPoint toAnchors (visit fromPoint toPoint st)"

primrec outer_loop ::
  "Point list \<Rightarrow> Point list \<Rightarrow> real option \<times> BestPoints \<Rightarrow> real option \<times> BestPoints" where
  "outer_loop [] toAnchors st = st"
| "outer_loop (fromPoint # fromAnchors) toAnchors st =
     outer_loop fromAnchors toAnchors (inner_loop fromPoint toAnchors st)"

definition findBestPoints :: "Entity \<Rightarrow> Entity \<Rightarrow> BestPoints" where
  "findBestPoints fromEntity toEntity =
     (let fromAnchors = getAnchors fromEntity;
          toAnchors = getAnchors toEntity
      in snd (outer_loop fromAnchors toAnchors
                (None, \<lparr> best_from = fromAnchors ! 0, best_to = toAnchors ! 0 \<rparr>)))"

definition calculateRelationshipRenderProps :: "Entity \<Rightarrow> Entity \<Rightarrow> RenderProps" where
  "calculateRelationshipRenderProps fromEntity toEntity =
     (let bestPoints = findBestPoints fromEntity toEntity;
          from = best_from bestPoints;
          to = best_to bestPoints;
          angleRad = atan2 (p_y to - p_y from) (p_x to - p_x from);
          angleDeg = angleRad * (180 / pi);
          offset = 20
      in \<lparr> points = [p_x from, p_y from, p_x to, p_y to],
           startSymbolProps =
             \<lparr> s_x = p_x from + offset * cos angleRad,
               s_y = p_y from + offset * sin angleRad,
               rotation = angleDeg + 180 \<rparr>,
           endSymbolProps =
             \<lparr> s_x = p_x to - offset * cos angleRad,
               s_y = p_y to - offset * sin angleRad,
               rotation = angleDeg \<rparr> \<rparr>)"

section \<open>Interaction handlers of \<^verbatim>\<open>ErdView\<close> and \<^verbatim>\<open>App\<close>\<close>

definition setEntities :: "(Entity list \<Rightarrow> Entity list) \<Rightarrow> AppState \<Rightarrow> AppState \<Rightarrow> AppState" where
  "setEntities updater c s = updateState (Fn updater) (Fn (\<lambda>prevRels. prevRels)) c s"

definition setRelationships ::
  "(Relationship list \<Rightarrow> Relationship list) \<Rightarrow> AppState \<Rightarrow> AppState \<Rightarrow> AppState" where
  "setRelationships updater c s = updateState (Fn (\<lambda>prevEnts. prevEnts)) (Fn updater) c s"

text \<open>
  \<^verbatim>\<open>handleDragMove\<close>: the body of the \<^verbatim>\<open>forEach\<close> redraws one connector
  that touches the dragged entity; nothing but the stage is written.
\<close>

definition redrawRelationship ::
  "string \<Rightarrow> Entity \<Rightarrow> Entity list \<Rightarrow> (string \<rightharpoonup> LineGroup) \<Rightarrow> Relationship \<Rightarrow> (string \<rightharpoonup> LineGroup)" where
  "redrawRelationship entityId tempDraggedEntity ents nodes rel =
     (if r_fromId rel = entityId \<or> r_toId rel = entityId then
        (let fromEntity = (if r_fromId rel = entityId then Some tempDraggedEntity
                           else find (\<lambda>en. e_id en = r_fromId rel) ents);
             toEntity = (if r_toId rel = entityId then Some tempDraggedEntity
                         else find (\<lambda>en. e_id en = r_toId rel) ents)
         in case (fromEntity, toEntity) of
              (Some f, Some t) \<Rightarrow>
                (let props = calculateRelationshipRenderProps f t
                 in case nodes (r_id rel) of
                      None \<Rightarrow> nodes
                    | Some lineGroup \<Rightarrow>
                        nodes(r_id rel \<mapsto>
                          \<lparr> line_points = map_option (\<lambda>_. points props) (line_points lineGroup),
                            start_cardinality =
                              map_option (\<lambda>_. startSymbolProps props) (start_cardinality lineGroup),
                            end_cardinality =
                              map_option (\<lambda>_. endSymbolProps props) (end_cardinality lineGroup) \<rparr>))
            | _ \<Rightarrow> nodes)
      else nodes)"

definition handleDragMove :: "string \<Rightarrow> Point \<Rightarrow> AppState \<Rightarrow> AppState" where
  "handleDragMove entityId currentPos c =
     (case stage c of
        None \<Rightarrow> c
      | Some nodes \<Rightarrow>
          (case find (\<lambda>en. e_id en = entityId) (entities (current c)) of
             None \<Rightarrow> c
           | Some draggedEntityData \<Rightarrow>
               (let tempDraggedEntity =
                      draggedEntityData\<lparr> e_x := p_x currentPos, e_y := p_y currentPos \<rparr>
                in c\<lparr> stage := Some (foldl (redrawRelationship entityId tempDraggedEntity
                                               (entities (current c)))
                                        nodes (relationships (current c))) \<rparr>)))"

text \<open>\<^verbatim>\<open>handleDragEnd\<close>, with the id and the position of the released node.\<close>

definition handleDragEnd :: "string \<Rightarrow> real \<Rightarrow> real \<Rightarrow> AppState \<Rightarrow> AppState" where
  "handleDragEnd nodeId nodeX nodeY c =
     setEntities (\<lambda>prev. map (\<lambda>en. if e_id en = nodeId then en\<lparr> e_x := nodeX, e_y := nodeY \<rparr> else en) prev) c c"

definition handleEntityDblClick :: "string \<Rightarrow> AppState \<Rightarrow> AppState" where
  "handleEntityDblClick ident c =
     c\<lparr> relationshipCreation := \<lparr> active = False, fromId = None \<rparr>,
        selectedRelationshipId := None,
        selectedEntityId := None,
        editingEntityId := Some ident \<rparr>"

text \<open>
  \<^verbatim>\<open>handleFinishEditing\<close>. \<open>textarea\<close> is the value of the rename surface, \<open>None\<close>
  when \<^verbatim>\<open>textareaRef.current\<close> is null.
\<close>

definition handleFinishEditing :: "string option \<Rightarrow> AppState \<Rightarrow> AppState \<Rightarrow> AppState" where
  "handleFinishEditing textarea c s =
     (case textarea of
        None \<Rightarrow> s
      | Some newName \<Rightarrow>
          if \<not> truthy (editingEntityId c) then s
          else (setEntities
                  (\<lambda>prev. map (\<lambda>e. if Some (e_id e) = editingEntityId c
                                    then e\<lparr> e_name := newName \<rparr> else e) prev) c s)
               \<lparr> editingEntityId := None \<rparr>)"

text \<open>
  \<^verbatim>\<open>handleEntityClick\<close>; \<open>newId\<close> is the result of \<^verbatim>\<open>crypto.randomUUID()\<close>.
  The pending source is read only where it is truthy, so its \<open>None\<close> case is never run.
\<close>

definition handleEntityClick :: "string \<Rightarrow> string option \<Rightarrow> string \<Rightarrow> AppState \<Rightarrow> AppState" where
  "handleEntityClick ident textarea newId c =
     (let s = (if truthy (editingEntityId c)
               then (handleFinishEditing textarea c c)\<lparr> editingEntityId := None \<rparr>
               else c)
      in if \<not> active (relationshipCreation c) then
           s\<lparr> selectedRelationshipId := None, selectedEntityId := Some ident \<rparr>
         else if \<not> truthy (fromId (relationshipCreation c)) then
           s\<lparr> selectedEntityId := None,
              relationshipCreation := \<lparr> active = True, fromId = Some ident \<rparr> \<rparr>
         else
           (case fromId (relationshipCreation c) of
              None \<Rightarrow> s
            | Some fromId' \<Rightarrow>
                if fromId' = ident then s
                else
                  (let toId = ident;
                       alreadyExists =
                         list_ex (\<lambda>rel. (r_fromId rel = fromId' \<and> r_toId rel = toId)
                                       \<or> (r_fromId rel = toId \<and> r_toId rel = fromId'))
                           (relationships (current c))
                   in if alreadyExists then
                        s\<lparr> alerts := alerts s @ [RelationshipAlreadyExists],
                           relationshipCreation := \<lparr> active = False, fromId = None \<rparr> \<rparr>
                      else
                        (let newRelationship =
                               \<lparr> r_id = newId, r_fromId = fromId', r_toId = ident,
                                 r_startCardinality = ONE_AND_ONLY_ONE,
                                 r_endCardinality = ONE_AND_ONLY_ONE \<rparr>
                         in (setRelationships (\<lambda>prev. prev @ [newRelationship]) c s)
                            \<lparr> relationshipCreation := \<lparr> active = False, fromId = None \<rparr> \<rparr>))))"

definition handleRelationshipSelect :: "string option \<Rightarrow> string option \<Rightarrow> AppState \<Rightarrow> AppState" where
  "handleRelationshipSelect ident textarea c =
     (if \<not> truthy ident then c
      else (if truthy (editingEntityId c) then handleFinishEditing textarea c c else c)
           \<lparr> editingEntityId := None,
             relationshipCreation := \<lparr> active = False, fromId = None \<rparr>,
             selectedEntityId := None,
             selectedRelationshipId := ident \<rparr>)"

text \<open>
  \<^verbatim>\<open>handleCardinalityChange\<close>. \<^verbatim>\<open>Array.prototype.indexOf\<close> gives -1 for a value
  that is not in the array; \<^verbatim>\<open>%\<close> is the remainder of the truncating division.
\<close>

fun indexOf :: "'a list \<Rightarrow> 'a \<Rightarrow> int" where
  "indexOf [] v = - 1"
| "indexOf (x # xs) v =
     (if x = v then 0 else (let i = indexOf xs v in if i < 0 then - 1 else i + 1))"

definition js_rem :: "int \<Rightarrow> int \<Rightarrow> int" where
  "js_rem a b = sgn a * (\<bar>a\<bar> mod \<bar>b\<bar>)"

definition startsWith :: "string \<Rightarrow> string \<Rightarrow> bool" where
  "startsWith str prefix = (take (length prefix) str = prefix)"

definition nextCardinality :: "Cardinality \<Rightarrow> Cardinality" where
  "nextCardinality currentCardinality =
     (let currentIndex = indexOf CARDINALITIES currentCardinality;
          nextIndex = js_rem (currentIndex + 1) (int (length CARDINALITIES))
      in CARDINALITIES ! nat nextIndex)"

definition cycleRelationship :: "string \<Rightarrow> string \<Rightarrow> Relationship \<Rightarrow> Relationship" where
  "cycleRelationship relationshipId point rel =
     (if r_id rel = relationshipId then
        (if point = ''start''
         then rel\<lparr> r_startCardinality := nextCardinality (r_startCardinality rel) \<rparr>
         else rel\<lparr> r_endCardinality := nextCardinality (r_endCardinality rel) \<rparr>)
      else rel)"

definition handleCardinalityChange :: "string option \<Rightarrow> string \<Rightarrow> AppState \<Rightarrow> AppState" where
  "handleCardinalityChange relationshipId symbolName c =
     (let point = (if startsWith symbolName ''start'' then ''start'' else ''end'')
      in case relationshipId of
           None \<Rightarrow> c
         | Some rid \<Rightarrow>
             if rid = [] then c
             else setRelationships (\<lambda>prevRels. map (cycleRelationship rid point) prevRels) c c)"

definition handleStageClick :: "bool \<Rightarrow> string option \<Rightarrow> AppState \<Rightarrow> AppState" where
  "handleStageClick targetIsStage textarea c =
     (if targetIsStage then
        (if truthy (editingEntityId c) then handleFinishEditing textarea c c else c)
        \<lparr> relationshipCreation := \<lparr> active = False, fromId = None \<rparr>,
          selectedRelationshipId := None,
          selectedEntityId := None \<rparr>
      else c)"

text \<open>The toolbar button that switches the connection mode.\<close>

definition toggleRelationshipCreation :: "AppState \<Rightarrow> AppState" where
  "toggleRelationshipCreation c =
     c\<lparr> editingEntityId := None, selectedRelationshipId := None, selectedEntityId := None,
        relationshipCreation := \<lparr> active = \<not> active (relationshipCreation c), fromId = None \<rparr> \<rparr>"

definition handleDeleteSelected :: "AppState \<Rightarrow> AppState" where
  "handleDeleteSelected c =
     (if truthy (selectedEntityId c) then
        (updateState
           (Fn (\<lambda>prev. filter (\<lambda>e. Some (e_id e) \<noteq> selectedEntityId c) prev))
           (Fn (\<lambda>prev. filter (\<lambda>r. Some (r_fromId r) \<noteq> selectedEntityId c
                                   \<and> Some (r_toId r) \<noteq> selectedEntityId c) prev)) c c)
        \<lparr> selectedEntityId := None \<rparr>
      else if truthy (selectedRelationshipId c) then
        (updateState
           (Val (entities (current c)))
           (Fn (\<lambda>prev. filter (\<lambda>rel. Some (r_id rel) \<noteq> selectedRelationshipId c) prev)) c c)
        \<lparr> selectedRelationshipId := None \<rparr>
      else c)"

text \<open>
  \<^verbatim>\<open>handleAddEntity\<close>. The template literal \<^verbatim>\<open>`${type} ${count}`\<close> writes the
  count in decimal. \<open>container\<close> is the scroll container, \<open>None\<close> when the ref is null.
\<close>

fun string_of_nat :: "nat \<Rightarrow> string" where
  "string_of_nat n =
     (if n < 10 then [''0123456789'' ! n]
      else string_of_nat (n div 10) @ [''0123456789'' ! (n mod 10)])"

declare string_of_nat.simps [simp del]

fun string_of_EntityType :: "EntityType \<Rightarrow> string" where
  "string_of_EntityType Entity = ''Entity''"
| "string_of_EntityType Action = ''Action''"
| "string_of_EntityType Attribute = ''Attribute''"

record Container =
  scrollLeft :: real
  clientWidth :: real
  scrollTop :: real
  clientHeight :: real

definition newEntity :: "EntityType \<Rightarrow> Container option \<Rightarrow> string \<Rightarrow> Entity list \<Rightarrow> Entity" where
  "newEntity type container newId ents =
     (let spawnX = (case container of
                      Some k \<Rightarrow> scrollLeft k + clientWidth k / 2 - 75 | None \<Rightarrow> 50);
          spawnY = (case container of
                      Some k \<Rightarrow> scrollTop k + clientHeight k / 2 - 40 | None \<Rightarrow> 50);
          count = length (filter (\<lambda>e. e_type e = type) ents) + 1
      in \<lparr> e_id = newId, e_x = spawnX, e_y = spawnY,
           e_width = (if type = Action then 120 else 150),
           e_height = (if type = Action then 120 else 75),
           e_name = string_of_EntityType type @ '' '' @ string_of_nat count,
           e_type = type \<rparr>)"

definition handleAddEntity :: "EntityType \<Rightarrow> Container option \<Rightarrow> string \<Rightarrow> AppState \<Rightarrow> AppState" where
  "handleAddEntity type container newId c =
     updateState
       (Fn (\<lambda>prev. prev @ [newEntity type container newId (entities (current c))]))
       (Val (relationships (current c))) c c"

definition handleTextareaKeyDown :: "string \<Rightarrow> bool \<Rightarrow> string option \<Rightarrow> AppState \<Rightarrow> AppState" where
  "handleTextareaKeyDown key shiftKey textarea c =
     (let s = (if key = ''Enter'' \<and> \<not> shiftKey then handleFinishEditing textarea c c else c)
      in if key = ''Escape'' then s\<lparr> editingEntityId := None \<rparr> else s)"

text \<open>The toolbar button that shows or hides the cardinality markers.\<close>

definition toggleShowCardinality :: "AppState \<Rightarrow> AppState" where
  "toggleShowCardinality c = c\<lparr> showCardinality := \<not> showCardinality c \<rparr>"

text \<open>\<^verbatim>\<open>handleExportImage\<close>, without the raster export that it starts.\<close>

definition handleExportImage :: "AppState \<Rightarrow> AppState" where
  "handleExportImage c =
     c\<lparr> selectedRelationshipId := None, selectedEntityId := None, editingEntityId := None \<rparr>"

section \<open>The states that the editor reaches\<close>

text \<open>
  One event of the pointer, the rename surface or the toolbar, with what the handler
  reads from outside the state: the id of the target, the value of the rename surface, a
  fresh id. The keyboard shortcuts call \<open>handleUndo\<close>, \<open>handleRedo\<close> and
  \<open>handleDeleteSelected\<close>.
\<close>

datatype Event =
    AddEntity EntityType "Container option" string
  | Undo
  | Redo
  | DeleteSelected
  | ToggleRelationshipCreation
  | ToggleShowCardinality
  | ExportImage
  | DragMove string Point
  | DragEnd string real real
  | EntityClick string "string option" string
  | EntityDblClick string
  | RelationshipSelect "string option" "string option"
  | CardinalityChange "string option" string
  | StageClick bool "string option"
  | FinishEditing "string option"
  | TextareaKeyDown string bool "string option"

fun step :: "Event \<Rightarrow> AppState \<Rightarrow> AppState" where
  "step (AddEntity type container newId) c = handleAddEntity type container newId c"
| "step Undo c = handleUndo c"
| "step Redo c = handleRedo c"
| "step DeleteSelected c = handleDeleteSelected c"
| "step ToggleRelationshipCreation c = toggleRelationshipCreation c"
| "step ToggleShowCardinality c = toggleShowCardinality c"
| "step ExportImage c = handleExportImage c"
| "step (DragMove nodeId currentPos) c = handleDragMove nodeId currentPos c"
| "step (DragEnd nodeId nodeX nodeY) c = handleDragEnd nodeId nodeX nodeY c"
| "step (EntityClick ident textarea newId) c = handleEntityClick ident textarea newId c"
| "step (EntityDblClick ident) c = handleEntityDblClick ident c"
| "step (RelationshipSelect ident textarea) c = handleRelationshipSelect ident textarea c"
| "step (CardinalityChange relationshipId symbolName) c =
     handleCardinalityChange relationshipId symbolName c"
| "step (StageClick targetIsStage textarea) c = handleStageClick targetIsStage textarea c"
| "step (FinishEditing textarea) c = handleFinishEditing textarea c c"
| "step (TextareaKeyDown key shiftKey textarea) c = handleTextareaKeyDown key shiftKey textarea c"

inductive reachable :: "AppState \<Rightarrow> bool" where
  initial: "reachable initialState"
| after: "reachable c \<Longrightarrow> reachable (step ev c)"

section \<open>The handlers of \<^verbatim>\<open>plus_page.tsx\<close>\<close>

text \<open>
  This iteration keeps the entities in an object keyed by id and has no history: its
  \<^verbatim>\<open>App\<close> holds the two collections in state cells of their own, and every
  collection update is a functional updater, applied to the latest value.
\<close>

record PlusState =
  pp_entities :: "string \<rightharpoonup> Entity"
  pp_relationships :: "Relationship list"
  pp_selectedEntityId :: "string option"
  pp_selectedRelationshipId :: "string option"
  pp_relationshipCreation :: RelationshipCreation
  pp_editingEntityId :: "string option"

text \<open>\<^verbatim>\<open>String.prototype.toLowerCase\<close> on the letters A to Z.\<close>

definition toLowerCase :: "string \<Rightarrow> string" where
  "toLowerCase str =
     map (\<lambda>ch. if 65 \<le> (of_char ch :: nat) \<and> (of_char ch :: nat) \<le> 90
                then char_of ((of_char ch :: nat) + 32) else ch) str"


text \<open>\<^verbatim>\<open>addEntity\<close>; \<open>now\<close> is the value of \<^verbatim>\<open>Date.now()\<close>.\<close>

definition pp_addEntity :: "EntityType \<Rightarrow> nat \<Rightarrow> PlusState \<Rightarrow> PlusState" where
  "pp_addEntity type now s =
     (let ident = toLowerCase (string_of_EntityType type) @ ''_'' @ string_of_nat now;
          newEntity = \<lparr> e_id = ident, e_x = 100, e_y = 100, e_width = 150, e_height = 75,
                        e_name = string_of_EntityType type, e_type = type \<rparr>
      in s\<lparr> pp_entities := (pp_entities s)(ident \<mapsto> newEntity) \<rparr>)"


definition pp_deleteSelected :: "PlusState \<Rightarrow> PlusState" where
  "pp_deleteSelected c =
     (let s1 = (case pp_selectedEntityId c of
                  None \<Rightarrow> c
                | Some selected \<Rightarrow>
                    if selected = [] then c
                    else c\<lparr> pp_entities := (pp_entities c)(selected := None),
                            pp_relationships :=
                              filter (\<lambda>rel. r_fromId rel \<noteq> selected \<and> r_toId rel \<noteq> selected)
                                (pp_relationships c),
                            pp_selectedEntityId := None \<rparr>)
      in if truthy (pp_selectedRelationshipId c) then
           s1\<lparr> pp_relationships :=
                  filter (\<lambda>rel. Some (r_id rel) \<noteq> pp_selectedRelationshipId c) (pp_relationships s1),
               pp_selectedRelationshipId := None \<rparr>
         else s1)"



section \<open>The click that reaches a handler\<close>





section \<open>Vocabulary of the statements\<close>

text \<open>
  \<open>commits_snapshot c snap c'\<close>: the history of \<open>c'\<close> is the history of \<open>c\<close> up to its
  cursor, followed by \<open>snap\<close>, and the cursor of \<open>c'\<close> is the next index. In a state with
  \<open>hist_ok\<close> that index is the last one, the index of \<open>snap\<close>.
\<close>

definition commits_snapshot :: "AppState \<Rightarrow> Snapshot \<Rightarrow> AppState \<Rightarrow> bool" where
  "commits_snapshot c snap c' =
     (history c' = take (Suc (historyIndex c)) (history c) @ [snap]
      \<and> historyIndex c' = Suc (historyIndex c))"

text \<open>The unordered pair of shapes that a connection joins.\<close>

definition endpoints :: "Relationship \<Rightarrow> string set" where
  "endpoints rel = {r_fromId rel, r_toId rel}"

text \<open>The number that a string of decimal digits denotes.\<close>

definition decimal_value :: "string \<Rightarrow> nat" where
  "decimal_value str = foldl (\<lambda>acc ch. 10 * acc + (of_char ch - 48)) 0 str"

text \<open>
  What the search for the closest pair has established after the pairs in \<open>S\<close>: the
  pair it holds is one of them, at the distance it holds, and none of them is closer.
\<close>

definition searched :: "(Point \<times> Point) set \<Rightarrow> real option \<times> BestPoints \<Rightarrow> bool" where
  "searched S st =
     (case fst st of
        None \<Rightarrow> S = {}
      | Some m \<Rightarrow>
          (best_from (snd st), best_to (snd st)) \<in> S
          \<and> m = hypot (p_x (best_from (snd st)) - p_x (best_to (snd st)))
                      (p_y (best_from (snd st)) - p_y (best_to (snd st)))
          \<and> (\<forall>q \<in> S. m \<le> hypot (p_x (fst q) - p_x (snd q)) (p_y (fst q) - p_y (snd q))))"

text \<open>
  A snapshot without a connection from a shape to itself and without two connections
  for one unordered pair of shapes; a state whose cursor is in range, whose snapshots are
  all such, and in which no rename is open while the connection mode is on.
\<close>

definition graph_ok :: "Snapshot \<Rightarrow> bool" where
  "graph_ok snap =
     ((\<forall>rel \<in> set (relationships snap). r_fromId rel \<noteq> r_toId rel)
      \<and> distinct (map endpoints (relationships snap)))"

definition state_ok :: "AppState \<Rightarrow> bool" where
  "state_ok c =
     (hist_ok c
      \<and> (active (relationshipCreation c) \<longrightarrow> \<not> truthy (editingEntityId c))
      \<and> (\<forall>snap \<in> set (history c). graph_ok snap))"

section \<open>A sample diagram\<close>

text \<open>
  Two actions and an entity with two connections, in a history of two snapshots. The
  theorems below are instantiated at this state.
\<close>

abbreviation demoA :: Entity where
  "demoA \<equiv> \<lparr> e_id = ''a'', e_x = 100, e_y = 300, e_width = 120, e_height = 120,
     e_name = ''Action 1'', e_type = Action \<rparr>"

abbreviation demoB :: Entity where
  "demoB \<equiv> \<lparr> e_id = ''b'', e_x = 300, e_y = 100, e_width = 120, e_height = 120,
     e_name = ''Action 2'', e_type = Action \<rparr>"

abbreviation demoC :: Entity where
  "demoC \<equiv> \<lparr> e_id = ''c'', e_x = 600, e_y = 100, e_width = 150, e_height = 75,
     e_name = ''Entity 1'', e_type = Entity \<rparr>"

abbreviation demoAB :: Relationship where
  "demoAB \<equiv> \<lparr> r_id = ''r1'', r_fromId = ''a'', r_toId = ''b'',
     r_startCardinality = ONE_AND_ONLY_ONE, r_endCardinality = MANY \<rparr>"

abbreviation demoBC :: Relationship where
  "demoBC \<equiv> \<lparr> r_id = ''r2'', r_fromId = ''b'', r_toId = ''c'',
     r_startCardinality = ONE_AND_ONLY_ONE, r_endCardinality = ONE_AND_ONLY_ONE \<rparr>"

abbreviation demoState :: AppState where
  "demoState \<equiv> \<lparr> history = [\<lparr> entities = [], relationships = [] \<rparr>,
                               \<lparr> entities = [demoA, demoB, demoC], relationships = [demoAB, demoBC] \<rparr>],
     historyIndex = 1, editingEntityId = None, selectedEntityId = None,
     relationshipCreation = \<lparr> active = False, fromId = None \<rparr>,
     selectedRelationshipId = None, showCardinality = True, stage = Some Map.empty,
     alerts = [] \<rparr>"

text \<open>The same diagram in \<^verbatim>\<open>plus_page.tsx\<close>, with one connection, while a connection from \<open>a\<close> is pending.\<close>

abbreviation demoPlus :: PlusState where
  "demoPlus \<equiv> \<lparr> pp_entities = [''a'' \<mapsto> demoA, ''b'' \<mapsto> demoB, ''c'' \<mapsto> demoC],
     pp_relationships = [demoAB],
     pp_selectedEntityId = Some ''a'', pp_selectedRelationshipId = None,
     pp_relationshipCreation = \<lparr> active = True, fromId = Some ''a'' \<rparr>,
     pp_editingEntityId = None \<rparr>"



text \<open>A third action, to the right of \<open>b\<close>.\<close>

abbreviation demoD :: Entity where
  "demoD \<equiv> \<lparr> e_id = ''d'', e_x = 600, e_y = 100, e_width = 120, e_height = 120,
     e_name = ''Action 3'', e_type = Action \<rparr>"

text \<open>
  The sample diagram on a canvas that shows the line of the connection \<open>r1\<close> and, with
  the cardinality markers hidden, no marker.
\<close>

abbreviation demoDrawn :: AppState where
  "demoDrawn \<equiv> demoState\<lparr> showCardinality := False,
     stage := Some [''r1'' \<mapsto> \<lparr> line_points = Some [160, 300, 300, 160],
                                   start_cardinality = None, end_cardinality = None \<rparr>] \<rparr>"

section \<open>Properties of the history controller\<close>

lemma hist_ok_initialState: "hist_ok initialState"
  by (simp add: hist_ok_def initialState_def)

lemma hist_ok_updateState:
  "hist_ok c \<Longrightarrow> hist_ok (updateState eu ru c s)"
  by (simp add: hist_ok_def updateState_def Let_def)

lemma hist_ok_handleUndo: "hist_ok c \<Longrightarrow> hist_ok (handleUndo c)"
  by (auto simp add: hist_ok_def handleUndo_def)

lemma hist_ok_handleRedo: "hist_ok c \<Longrightarrow> hist_ok (handleRedo c)"
  by (auto simp add: hist_ok_def handleRedo_def)

lemma updateState_history:
  assumes "hist_ok c"
  shows "history (updateState eu ru c s) =
           take (Suc (historyIndex c)) (history c) @
             [\<lparr> entities = apply_updater eu (entities (current c)),
                relationships = apply_updater ru (relationships (current c)) \<rparr>]"
    and "historyIndex (updateState eu ru c s) = Suc (historyIndex c)"
  using assms by (simp_all add: updateState_def Let_def hist_ok_def)

lemma updateState_current:
  assumes "hist_ok c"
  shows "current (updateState eu ru c s) =
           \<lparr> entities = apply_updater eu (entities (current c)),
             relationships = apply_updater ru (relationships (current c)) \<rparr>"
  using assms
  by (simp add: current_def updateState_def Let_def hist_ok_def nth_append)

lemma handleUndo_after_updateState:
  assumes "hist_ok c"
  shows "handleUndo (updateState eu ru c c) = (updateState eu ru c c)\<lparr> historyIndex := historyIndex c \<rparr>"
  using updateState_history(2) [OF assms, of eu ru c] by (simp add: handleUndo_def)

lemma undo_restores_prior:
  assumes "hist_ok c"
  shows "current (handleUndo (updateState eu ru c c)) = current c"
proof -
  have "historyIndex c < length (history c)"
    using assms by (simp add: hist_ok_def)
  then show ?thesis
    by (simp add: handleUndo_after_updateState [OF assms] current_def
        updateState_history(1) [OF assms] nth_append)
qed

lemma redo_after_undo:
  assumes "hist_ok c"
  shows "handleRedo (handleUndo (updateState eu ru c c)) = updateState eu ru c c"
proof -
  have idx: "historyIndex c < length (history c)"
    using assms by (simp add: hist_ok_def)
  show ?thesis
    using idx updateState_history(2) [OF assms, of eu ru c]
    by (simp add: handleUndo_after_updateState [OF assms] handleRedo_def
        updateState_history(1) [OF assms])
qed

lemma new_snapshot_is_last:
  assumes "hist_ok c"
  shows "Suc (historyIndex (updateState eu ru c s)) = length (history (updateState eu ru c s))"
  using assms by (simp add: updateState_def Let_def hist_ok_def)

lemma handleUndo_at_start: "historyIndex c = 0 \<Longrightarrow> handleUndo c = c"
  by (simp add: handleUndo_def)

lemma handleRedo_at_end: "Suc (historyIndex c) = length (history c) \<Longrightarrow> handleRedo c = c"
  by (auto simp add: handleRedo_def)

lemma handleUndo_history: "history (handleUndo c) = history c"
  by (simp add: handleUndo_def)

lemma handleRedo_history: "history (handleRedo c) = history c"
  by (simp add: handleRedo_def)

text \<open>
  C3. In every state whose cursor points into the history: a commit keeps the snapshots
  up to the cursor, drops the ones after it, appends the new snapshot as the last one and
  moves the cursor onto it; undo right after the commit shows the snapshot that was
  current before, and redo right after that undo shows the committed snapshot again;
  undo at cursor 0 and redo at the last index change nothing; undo and redo leave the
  stored snapshots as they are.
\<close>

theorem history_commit_undo_redo:
  "hist_ok c \<Longrightarrow>
     history (updateState eu ru c c) =
       take (Suc (historyIndex c)) (history c) @
         [\<lparr> entities = apply_updater eu (entities (current c)),
            relationships = apply_updater ru (relationships (current c)) \<rparr>]
   \<and> historyIndex (updateState eu ru c c) = Suc (historyIndex c)
   \<and> Suc (historyIndex (updateState eu ru c c)) = length (history (updateState eu ru c c))
   \<and> current (updateState eu ru c c) =
       \<lparr> entities = apply_updater eu (entities (current c)),
         relationships = apply_updater ru (relationships (current c)) \<rparr>
   \<and> current (handleUndo (updateState eu ru c c)) = current c
   \<and> handleRedo (handleUndo (updateState eu ru c c)) = updateState eu ru c c
   \<and> (historyIndex c = 0 \<longrightarrow> handleUndo c = c)
   \<and> (Suc (historyIndex c) = length (history c) \<longrightarrow> handleRedo c = c)
   \<and> history (handleUndo c) = history c
   \<and> history (handleRedo c) = history c"
  by (intro conjI impI updateState_history updateState_current new_snapshot_is_last
      undo_restores_prior redo_after_undo handleUndo_at_start handleRedo_at_end
      handleUndo_history handleRedo_history)

theorem history_commit_undo_redo_witness:
  "hist_ok initialState
   \<and> historyIndex initialState = 0
   \<and> Suc (historyIndex initialState) = length (history initialState)
   \<and> history (updateState (Fn (\<lambda>prev. prev @ [\<lparr> e_id = ''a'', e_x = 50, e_y = 50,
          e_width = 150, e_height = 75, e_name = ''Entity 1'', e_type = Entity \<rparr>])) (Val [])
          initialState initialState) =
       [\<lparr> entities = [], relationships = [] \<rparr>,
        \<lparr> entities = [\<lparr> e_id = ''a'', e_x = 50, e_y = 50, e_width = 150, e_height = 75,
             e_name = ''Entity 1'', e_type = Entity \<rparr>], relationships = [] \<rparr>]
   \<and> current (handleUndo (updateState (Fn (\<lambda>prev. prev @ [\<lparr> e_id = ''a'', e_x = 50, e_y = 50,
          e_width = 150, e_height = 75, e_name = ''Entity 1'', e_type = Entity \<rparr>])) (Val [])
          initialState initialState)) = \<lparr> entities = [], relationships = [] \<rparr>
   \<and> handleUndo initialState = initialState
   \<and> handleRedo initialState = initialState"
  using history_commit_undo_redo [of initialState
      "Fn (\<lambda>prev. prev @ [\<lparr> e_id = ''a'', e_x = 50, e_y = 50,
          e_width = 150, e_height = 75, e_name = ''Entity 1'', e_type = Entity \<rparr>])" "Val []"]
  by (simp add: hist_ok_def initialState_def current_def)

section \<open>Commits\<close>

lemma snapshot_eta: "\<lparr> entities = entities (x::Snapshot), relationships = relationships x \<rparr> = x"
  by simp

lemma setRelationships_current:
  "hist_ok c \<Longrightarrow> current (setRelationships f c s) =
     \<lparr> entities = entities (current c), relationships = f (relationships (current c)) \<rparr>"
  by (simp add: setRelationships_def updateState_current)


lemma commits_snapshot_updateState:
  "hist_ok c \<Longrightarrow>
     commits_snapshot c \<lparr> entities = apply_updater eu (entities (current c)),
                          relationships = apply_updater ru (relationships (current c)) \<rparr>
       (updateState eu ru c s)"
  by (simp add: commits_snapshot_def updateState_history)

lemma commits_snapshot_current:
  "hist_ok c \<Longrightarrow> commits_snapshot c snap c' \<Longrightarrow> current c' = snap"
  by (simp add: commits_snapshot_def current_def hist_ok_def nth_append)

lemma commits_snapshot_hist_ok:
  "hist_ok c \<Longrightarrow> commits_snapshot c snap c' \<Longrightarrow> hist_ok c'"
  by (simp add: commits_snapshot_def hist_ok_def)

lemma commits_snapshot_update [simp]:
  "commits_snapshot c snap (s\<lparr> editingEntityId := e \<rparr>) = commits_snapshot c snap s"
  "commits_snapshot c snap (s\<lparr> selectedEntityId := e \<rparr>) = commits_snapshot c snap s"
  "commits_snapshot c snap (s\<lparr> selectedRelationshipId := e \<rparr>) = commits_snapshot c snap s"
  "commits_snapshot c snap (s\<lparr> relationshipCreation := rc \<rparr>) = commits_snapshot c snap s"
  "commits_snapshot c snap (s\<lparr> alerts := al \<rparr>) = commits_snapshot c snap s"
  "commits_snapshot c snap (s\<lparr> stage := st \<rparr>) = commits_snapshot c snap s"
  by (simp_all add: commits_snapshot_def)

lemma setEntities_commits:
  "hist_ok c \<Longrightarrow>
     commits_snapshot c \<lparr> entities = f (entities (current c)),
                          relationships = relationships (current c) \<rparr> (setEntities f c s)"
  using commits_snapshot_updateState [of c "Fn f" "Fn (\<lambda>prevRels. prevRels)" s]
  by (simp add: setEntities_def)

lemma setRelationships_commits:
  "hist_ok c \<Longrightarrow>
     commits_snapshot c \<lparr> entities = entities (current c),
                          relationships = g (relationships (current c)) \<rparr> (setRelationships g c s)"
  using commits_snapshot_updateState [of c "Fn (\<lambda>prevEnts. prevEnts)" "Fn g" s]
  by (simp add: setRelationships_def)

lemma current_update [simp]:
  "current (s\<lparr> editingEntityId := e \<rparr>) = current s"
  "current (s\<lparr> selectedEntityId := e \<rparr>) = current s"
  "current (s\<lparr> selectedRelationshipId := e \<rparr>) = current s"
  "current (s\<lparr> relationshipCreation := rc \<rparr>) = current s"
  "current (s\<lparr> alerts := al \<rparr>) = current s"
  "current (s\<lparr> stage := st \<rparr>) = current s"
  by (simp_all add: current_def)

lemma hist_ok_update [simp]:
  "hist_ok (s\<lparr> editingEntityId := e \<rparr>) = hist_ok s"
  "hist_ok (s\<lparr> selectedEntityId := e \<rparr>) = hist_ok s"
  "hist_ok (s\<lparr> selectedRelationshipId := e \<rparr>) = hist_ok s"
  "hist_ok (s\<lparr> relationshipCreation := rc \<rparr>) = hist_ok s"
  "hist_ok (s\<lparr> alerts := al \<rparr>) = hist_ok s"
  "hist_ok (s\<lparr> stage := st \<rparr>) = hist_ok s"
  by (simp_all add: hist_ok_def)

section \<open>Cycling a cardinality marker\<close>

lemma nextCardinality_simps:
  "nextCardinality ONE_AND_ONLY_ONE = ZERO_OR_ONE"
  "nextCardinality ZERO_OR_ONE = ONE_OR_MANY"
  "nextCardinality ONE_OR_MANY = ZERO_OR_MANY"
  "nextCardinality ZERO_OR_MANY = ONE"
  "nextCardinality ONE = MANY"
  "nextCardinality MANY = ONE_AND_ONLY_ONE"
  by (simp_all add: nextCardinality_def CARDINALITIES_def js_rem_def Let_def)

lemma nextCardinality_six: "(nextCardinality ^^ 6) k = k"
  by (cases k) (simp_all add: numeral_eq_Suc nextCardinality_simps)

lemma handleCardinalityChange_eq:
  "rid \<noteq> [] \<Longrightarrow> handleCardinalityChange (Some rid) symbolName c =
     setRelationships (map (cycleRelationship rid (if startsWith symbolName ''start'' then ''start'' else ''end''))) c c"
  by (simp add: handleCardinalityChange_def Let_def)

lemma hist_ok_handleCardinalityChange:
  "hist_ok c \<Longrightarrow> hist_ok (handleCardinalityChange rid symbolName c)"
  by (auto simp add: handleCardinalityChange_def Let_def setRelationships_def hist_ok_updateState
      split: option.splits)

lemma handleCardinalityChange_current:
  "hist_ok c \<Longrightarrow> rid \<noteq> [] \<Longrightarrow> current (handleCardinalityChange (Some rid) symbolName c) =
     \<lparr> entities = entities (current c),
       relationships = map (cycleRelationship rid (if startsWith symbolName ''start'' then ''start'' else ''end'')) (relationships (current c)) \<rparr>"
  by (simp add: handleCardinalityChange_eq setRelationships_current)

lemma handleCardinalityChange_funpow:
  "hist_ok c \<Longrightarrow> rid \<noteq> [] \<Longrightarrow>
     hist_ok ((handleCardinalityChange (Some rid) symbolName ^^ n) c) \<and>
     current ((handleCardinalityChange (Some rid) symbolName ^^ n) c) =
       \<lparr> entities = entities (current c),
         relationships = map (cycleRelationship rid (if startsWith symbolName ''start'' then ''start'' else ''end'') ^^ n) (relationships (current c)) \<rparr>"
proof (induction n)
  case 0
  then show ?case by simp
next
  case (Suc n)
  then show ?case
    by (simp add: hist_ok_handleCardinalityChange handleCardinalityChange_current)
qed

lemma cycleRelationship_funpow_id [simp]:
  "r_id ((cycleRelationship rid point ^^ n) rel) = r_id rel"
  by (induction n) (simp_all add: cycleRelationship_def)

lemma cycleRelationship_six: "(cycleRelationship rid point ^^ 6) rel = rel"
proof (cases "r_id rel = rid")
  case False
  have "(cycleRelationship rid point ^^ n) rel = rel" for n
    using False by (induction n) (simp_all add: cycleRelationship_def)
  then show ?thesis .
next
  case True
  have start: "(cycleRelationship rid ''start'' ^^ n) rel =
      rel\<lparr> r_startCardinality := (nextCardinality ^^ n) (r_startCardinality rel) \<rparr>" for n
    using True by (induction n) (simp_all add: cycleRelationship_def)
  have other: "point \<noteq> ''start'' \<Longrightarrow> (cycleRelationship rid point ^^ n) rel =
      rel\<lparr> r_endCardinality := (nextCardinality ^^ n) (r_endCardinality rel) \<rparr>" for n
    using True by (induction n) (simp_all add: cycleRelationship_def)
  show ?thesis
  proof (cases "point = ''start''")
    case True
    then show ?thesis using start [of 6] by (simp only: nextCardinality_six) simp
  next
    case False
    then show ?thesis using other [of 6] by (simp only: nextCardinality_six) simp
  qed
qed

lemma six_cycles_restore:
  assumes "hist_ok c" "rid \<noteq> []"
  shows "current ((handleCardinalityChange (Some rid) symbolName ^^ 6) c) = current c"
proof -
  have "map (cycleRelationship rid (if startsWith symbolName ''start'' then ''start'' else ''end'') ^^ 6) (relationships (current c)) =
        relationships (current c)"
    by (simp only: cycleRelationship_six [abs_def]) simp
  then show ?thesis
    using handleCardinalityChange_funpow [OF assms, where n = 6 and symbolName = symbolName] by simp
qed

lemma CARDINALITIES_complete: "set CARDINALITIES = UNIV"
proof -
  have "k \<in> set CARDINALITIES" for k
    by (cases k) (simp_all add: CARDINALITIES_def)
  then show ?thesis by blast
qed

lemma nextCardinality_rotate: "map nextCardinality CARDINALITIES = rotate1 CARDINALITIES"
  by (simp add: CARDINALITIES_def nextCardinality_simps)

lemma startsWith_start: "startsWith ''start-cardinality'' ''start''"
  by (simp add: startsWith_def)

lemma startsWith_end: "\<not> startsWith ''end-cardinality'' ''start''"
  by (simp add: startsWith_def)

lemma cycle_effect:
  assumes "hist_ok c" "rid \<noteq> []" "i < length (relationships (current c))"
  shows "(r_id (relationships (current c) ! i) \<noteq> rid \<longrightarrow>
            relationships (current (handleCardinalityChange (Some rid) symbolName c)) ! i =
              relationships (current c) ! i)
       \<and> (r_id (relationships (current c) ! i) = rid \<and> symbolName = ''start-cardinality'' \<longrightarrow>
            relationships (current (handleCardinalityChange (Some rid) symbolName c)) ! i =
              (relationships (current c) ! i)
                \<lparr> r_startCardinality := nextCardinality (r_startCardinality (relationships (current c) ! i)) \<rparr>)
       \<and> (r_id (relationships (current c) ! i) = rid \<and> symbolName = ''end-cardinality'' \<longrightarrow>
            relationships (current (handleCardinalityChange (Some rid) symbolName c)) ! i =
              (relationships (current c) ! i)
                \<lparr> r_endCardinality := nextCardinality (r_endCardinality (relationships (current c) ! i)) \<rparr>)"
  using assms(3)
  by (simp add: handleCardinalityChange_current [OF assms(1,2)] cycleRelationship_def
      startsWith_start startsWith_end)

text \<open>
  C5. For a connection id and either marker, \<^verbatim>\<open>handleCardinalityChange\<close> replaces the
  marker of that end by its successor in \<open>CARDINALITIES\<close> (the successor of the last
  value is the first), leaves the other fields of the connection, every other connection
  and the entities as they are, and six applications give back the snapshot they
  started from.
\<close>

theorem cycleCardinality_advances:
  "hist_ok c \<Longrightarrow> rid \<noteq> [] \<Longrightarrow>
     entities (current (handleCardinalityChange (Some rid) symbolName c)) = entities (current c)
   \<and> length (relationships (current (handleCardinalityChange (Some rid) symbolName c))) =
       length (relationships (current c))
   \<and> (\<forall>i < length (relationships (current c)).
        (r_id (relationships (current c) ! i) \<noteq> rid \<longrightarrow>
            relationships (current (handleCardinalityChange (Some rid) symbolName c)) ! i =
              relationships (current c) ! i)
       \<and> (r_id (relationships (current c) ! i) = rid \<and> symbolName = ''start-cardinality'' \<longrightarrow>
            relationships (current (handleCardinalityChange (Some rid) symbolName c)) ! i =
              (relationships (current c) ! i)
                \<lparr> r_startCardinality := nextCardinality (r_startCardinality (relationships (current c) ! i)) \<rparr>)
       \<and> (r_id (relationships (current c) ! i) = rid \<and> symbolName = ''end-cardinality'' \<longrightarrow>
            relationships (current (handleCardinalityChange (Some rid) symbolName c)) ! i =
              (relationships (current c) ! i)
                \<lparr> r_endCardinality := nextCardinality (r_endCardinality (relationships (current c) ! i)) \<rparr>))
   \<and> map nextCardinality CARDINALITIES = rotate1 CARDINALITIES
   \<and> set CARDINALITIES = UNIV
   \<and> current ((handleCardinalityChange (Some rid) symbolName ^^ 6) c) = current c"
proof (intro conjI allI impI)
  assume h: "hist_ok c" "rid \<noteq> []"
  show "entities (current (handleCardinalityChange (Some rid) symbolName c)) = entities (current c)"
    by (simp add: handleCardinalityChange_current [OF h])
  show "length (relationships (current (handleCardinalityChange (Some rid) symbolName c))) =
       length (relationships (current c))"
    by (simp add: handleCardinalityChange_current [OF h])
  show "map nextCardinality CARDINALITIES = rotate1 CARDINALITIES"
    by (rule nextCardinality_rotate)
  show "set CARDINALITIES = UNIV"
    by (rule CARDINALITIES_complete)
  show "current ((handleCardinalityChange (Some rid) symbolName ^^ 6) c) = current c"
    by (rule six_cycles_restore [OF h])
next
  fix i
  assume h: "hist_ok c" "rid \<noteq> []" and i: "i < length (relationships (current c))"
  { assume "r_id (relationships (current c) ! i) \<noteq> rid"
    then show "relationships (current (handleCardinalityChange (Some rid) symbolName c)) ! i =
              relationships (current c) ! i"
      using cycle_effect [OF h i, of symbolName] by blast }
  { assume "r_id (relationships (current c) ! i) = rid \<and> symbolName = ''start-cardinality''"
    then show "relationships (current (handleCardinalityChange (Some rid) symbolName c)) ! i =
              (relationships (current c) ! i)
                \<lparr> r_startCardinality := nextCardinality (r_startCardinality (relationships (current c) ! i)) \<rparr>"
      using cycle_effect [OF h i, of symbolName] by blast }
  { assume "r_id (relationships (current c) ! i) = rid \<and> symbolName = ''end-cardinality''"
    then show "relationships (current (handleCardinalityChange (Some rid) symbolName c)) ! i =
              (relationships (current c) ! i)
                \<lparr> r_endCardinality := nextCardinality (r_endCardinality (relationships (current c) ! i)) \<rparr>"
      using cycle_effect [OF h i, of symbolName] by blast }
qed

theorem cycleCardinality_advances_witness:
  "hist_ok demoState \<and> ''r1'' \<noteq> []
   \<and> r_id (relationships (current demoState) ! 0) = ''r1''
   \<and> r_id (relationships (current demoState) ! 1) \<noteq> ''r1''
   \<and> relationships (current (handleCardinalityChange (Some ''r1'') ''start-cardinality'' demoState)) ! 0 =
       demoAB\<lparr> r_startCardinality := ZERO_OR_ONE \<rparr>
   \<and> relationships (current (handleCardinalityChange (Some ''r1'') ''end-cardinality'' demoState)) ! 0 =
       demoAB\<lparr> r_endCardinality := ONE_AND_ONLY_ONE \<rparr>
   \<and> relationships (current (handleCardinalityChange (Some ''r1'') ''start-cardinality'' demoState)) ! 1 =
       demoBC
   \<and> current ((handleCardinalityChange (Some ''r1'') ''start-cardinality'' ^^ 6) demoState) =
       current demoState"
proof -
  have h: "hist_ok demoState" and ne: "''r1'' \<noteq> []"
    by (simp_all add: hist_ok_def)
  have cur: "relationships (current demoState) = [demoAB, demoBC]"
    by (simp add: current_def)
  note s = cycleCardinality_advances [OF h ne, of "''start-cardinality''"]
  note e = cycleCardinality_advances [OF h ne, of "''end-cardinality''"]
  have s0: "relationships (current (handleCardinalityChange (Some ''r1'') ''start-cardinality'' demoState)) ! 0 =
       demoAB\<lparr> r_startCardinality := ZERO_OR_ONE \<rparr>"
    using s [THEN conjunct2, THEN conjunct2, THEN conjunct1, THEN spec, of 0]
    unfolding cur by (simp add: nextCardinality_simps)
  have e0: "relationships (current (handleCardinalityChange (Some ''r1'') ''end-cardinality'' demoState)) ! 0 =
       demoAB\<lparr> r_endCardinality := ONE_AND_ONLY_ONE \<rparr>"
    using e [THEN conjunct2, THEN conjunct2, THEN conjunct1, THEN spec, of 0]
    unfolding cur by (simp add: nextCardinality_simps)
  have s1: "relationships (current (handleCardinalityChange (Some ''r1'') ''start-cardinality'' demoState)) ! 1 =
       demoBC"
    using s [THEN conjunct2, THEN conjunct2, THEN conjunct1, THEN spec, of 1]
    unfolding cur by simp
  note six = s [THEN conjunct2, THEN conjunct2, THEN conjunct2, THEN conjunct2, THEN conjunct2]
  show ?thesis
    using h s0 e0 s1 six unfolding cur by simp
qed

section \<open>Mutations with an id that is not in the diagram\<close>

lemma map_stale_id:
  "k \<notin> f ` set xs \<Longrightarrow> map (\<lambda>x. if f x = k then g x else x) xs = xs"
  by (induction xs) auto

lemma stale_move:
  assumes "hist_ok c" "nodeId \<notin> e_id ` set (entities (current c))"
  shows "commits_snapshot c (current c) (handleDragEnd nodeId nodeX nodeY c)"
  using setEntities_commits [OF assms(1), of
      "\<lambda>prev. map (\<lambda>en. if e_id en = nodeId then en\<lparr> e_x := nodeX, e_y := nodeY \<rparr> else en) prev" c]
  by (simp add: handleDragEnd_def map_stale_id [OF assms(2)] snapshot_eta)

lemma stale_rename:
  assumes "hist_ok c" "editingEntityId c = Some eid" "eid \<noteq> []"
    "eid \<notin> e_id ` set (entities (current c))"
  shows "commits_snapshot c (current c) (handleFinishEditing (Some newName) c c)"
proof -
  have "map (\<lambda>e. if Some (e_id e) = editingEntityId c then e\<lparr> e_name := newName \<rparr> else e)
          (entities (current c)) = entities (current c)"
    using map_stale_id [OF assms(4), of "\<lambda>e. e\<lparr> e_name := newName \<rparr>"] by (simp add: assms(2))
  then show ?thesis
    using setEntities_commits [OF assms(1), of
      "\<lambda>prev. map (\<lambda>e. if Some (e_id e) = editingEntityId c then e\<lparr> e_name := newName \<rparr> else e) prev" c]
    by (simp add: handleFinishEditing_def truthy_def assms(2,3) snapshot_eta)
qed

lemma stale_cycle:
  assumes "hist_ok c" "rid \<noteq> []" "rid \<notin> r_id ` set (relationships (current c))"
  shows "commits_snapshot c (current c) (handleCardinalityChange (Some rid) symbolName c)"
proof -
  have "map (cycleRelationship rid p) (relationships (current c)) = relationships (current c)" for p
    using assms(3) by (intro map_idI) (auto simp add: cycleRelationship_def)
  then show ?thesis
    using setRelationships_commits [OF assms(1), of
      "map (cycleRelationship rid (if startsWith symbolName ''start'' then ''start'' else ''end''))" c]
    by (simp add: handleCardinalityChange_eq [OF assms(2)] snapshot_eta)
qed

text \<open>
  C10. A move, a rename or a cardinality change whose id is in none of the current
  collections commits a snapshot equal to the current one: the history is cut after the
  cursor, the equal snapshot is appended and the cursor moves onto it, so the step that
  changed nothing takes one undo step.
\<close>

theorem stale_id_consumes_undo_step:
  "hist_ok c \<Longrightarrow>
     (nodeId \<notin> e_id ` set (entities (current c)) \<longrightarrow>
        commits_snapshot c (current c) (handleDragEnd nodeId nodeX nodeY c)
      \<and> current (handleDragEnd nodeId nodeX nodeY c) = current c)
   \<and> (editingEntityId c = Some eid \<and> eid \<noteq> [] \<and> eid \<notin> e_id ` set (entities (current c)) \<longrightarrow>
        commits_snapshot c (current c) (handleFinishEditing (Some newName) c c)
      \<and> current (handleFinishEditing (Some newName) c c) = current c)
   \<and> (rid \<noteq> [] \<and> rid \<notin> r_id ` set (relationships (current c)) \<longrightarrow>
        commits_snapshot c (current c) (handleCardinalityChange (Some rid) symbolName c)
      \<and> current (handleCardinalityChange (Some rid) symbolName c) = current c)"
  by (auto intro: stale_move stale_rename stale_cycle
      commits_snapshot_current [OF _ stale_move] commits_snapshot_current [OF _ stale_rename]
      commits_snapshot_current [OF _ stale_cycle])


theorem stale_id_consumes_undo_step_witness:
  "hist_ok (demoState\<lparr> editingEntityId := Some ''gone'' \<rparr>)
   \<and> ''gone'' \<notin> e_id ` set (entities (current (demoState\<lparr> editingEntityId := Some ''gone'' \<rparr>)))
   \<and> ''r9'' \<notin> r_id ` set (relationships (current (demoState\<lparr> editingEntityId := Some ''gone'' \<rparr>)))
   \<and> history (handleDragEnd ''gone'' 5 7 (demoState\<lparr> editingEntityId := Some ''gone'' \<rparr>)) =
       history demoState @ [current demoState]
   \<and> history (handleFinishEditing (Some ''Orders'') (demoState\<lparr> editingEntityId := Some ''gone'' \<rparr>)
         (demoState\<lparr> editingEntityId := Some ''gone'' \<rparr>)) =
       history demoState @ [current demoState]
   \<and> history (handleCardinalityChange (Some ''r9'') ''end-cardinality''
         (demoState\<lparr> editingEntityId := Some ''gone'' \<rparr>)) =
       history demoState @ [current demoState]
   \<and> historyIndex (handleDragEnd ''gone'' 5 7 (demoState\<lparr> editingEntityId := Some ''gone'' \<rparr>)) = 2"
proof -
  let ?S = "demoState\<lparr> editingEntityId := Some ''gone'' \<rparr>"
  have h: "hist_ok ?S"
    by (simp add: hist_ok_def)
  have cur: "current ?S = current demoState" "history ?S = history demoState"
    "historyIndex ?S = 1" "editingEntityId ?S = Some ''gone''"
    by (simp_all add: current_def)
  have ents: "''gone'' \<notin> e_id ` set (entities (current ?S))"
    and rels: "''r9'' \<notin> r_id ` set (relationships (current ?S))"
    by (simp_all add: current_def)
  note t = stale_id_consumes_undo_step [OF h, where nodeId = "''gone''" and eid = "''gone''"
      and rid = "''r9''" and nodeX = 5 and nodeY = 7 and newName = "''Orders''"
      and symbolName = "''end-cardinality''"]
  have m: "commits_snapshot ?S (current ?S) (handleDragEnd ''gone'' 5 7 ?S)"
    using t ents by blast
  have r: "commits_snapshot ?S (current ?S) (handleFinishEditing (Some ''Orders'') ?S ?S)"
    using t ents cur(4) by blast
  have k: "commits_snapshot ?S (current ?S) (handleCardinalityChange (Some ''r9'') ''end-cardinality'' ?S)"
    using t rels by blast
  show ?thesis
    using h ents rels m r k unfolding commits_snapshot_def cur by simp
qed

section \<open>Deleting a shape\<close>

lemma handleDeleteSelected_entity:
  assumes "hist_ok c" "selectedEntityId c = Some sid" "sid \<noteq> []"
  shows "commits_snapshot c
           \<lparr> entities = filter (\<lambda>e. e_id e \<noteq> sid) (entities (current c)),
             relationships = filter (\<lambda>r. r_fromId r \<noteq> sid \<and> r_toId r \<noteq> sid)
                               (relationships (current c)) \<rparr>
           (handleDeleteSelected c)"
  using commits_snapshot_updateState [OF assms(1), of
      "Fn (\<lambda>prev. filter (\<lambda>e. Some (e_id e) \<noteq> selectedEntityId c) prev)"
      "Fn (\<lambda>prev. filter (\<lambda>r. Some (r_fromId r) \<noteq> selectedEntityId c
                              \<and> Some (r_toId r) \<noteq> selectedEntityId c) prev)" c]
  by (simp add: handleDeleteSelected_def truthy_def assms(2,3))

lemma pp_deleteSelected_entity:
  assumes "pp_selectedEntityId p = Some sid" "sid \<noteq> []"
  shows "pp_entities (pp_deleteSelected p) = (pp_entities p)(sid := None)"
    and "pp_relationships (pp_deleteSelected p) =
           filter (\<lambda>rel. Some (r_id rel) \<noteq> pp_selectedRelationshipId p \<or> \<not> truthy (pp_selectedRelationshipId p))
             (filter (\<lambda>rel. r_fromId rel \<noteq> sid \<and> r_toId rel \<noteq> sid) (pp_relationships p))"
  using assms by (simp_all add: pp_deleteSelected_def Let_def)

text \<open>
  C2. Deleting the selected shape commits one snapshot in which the shape is gone
  together with every connection that started or ended at it, so no connection of that
  snapshot refers to the deleted id. In \<^verbatim>\<open>plus_page.tsx\<close>, which has no snapshots,
  one call of \<^verbatim>\<open>deleteSelected\<close> removes the shape and the same connections.
\<close>

theorem removeShape_cascades:
  "(hist_ok c \<and> selectedEntityId c = Some sid \<and> sid \<noteq> [] \<longrightarrow>
      commits_snapshot c
        \<lparr> entities = filter (\<lambda>e. e_id e \<noteq> sid) (entities (current c)),
          relationships = filter (\<lambda>r. r_fromId r \<noteq> sid \<and> r_toId r \<noteq> sid)
                            (relationships (current c)) \<rparr>
        (handleDeleteSelected c)
    \<and> sid \<notin> e_id ` set (entities (current (handleDeleteSelected c)))
    \<and> (\<forall>r \<in> set (relationships (current (handleDeleteSelected c))).
          r_fromId r \<noteq> sid \<and> r_toId r \<noteq> sid))
   \<and> (pp_selectedEntityId p = Some sid \<and> sid \<noteq> [] \<longrightarrow>
      pp_entities (pp_deleteSelected p) = (pp_entities p)(sid := None)
    \<and> set (pp_relationships (pp_deleteSelected p)) \<subseteq> set (pp_relationships p)
    \<and> (\<forall>r \<in> set (pp_relationships (pp_deleteSelected p)).
          r_fromId r \<noteq> sid \<and> r_toId r \<noteq> sid))"
proof (intro conjI impI)
  assume a: "hist_ok c \<and> selectedEntityId c = Some sid \<and> sid \<noteq> []"
  then have h: "hist_ok c" and s: "selectedEntityId c = Some sid" and n: "sid \<noteq> []"
    by simp_all
  note d = handleDeleteSelected_entity [OF h s n]
  show "commits_snapshot c
        \<lparr> entities = filter (\<lambda>e. e_id e \<noteq> sid) (entities (current c)),
          relationships = filter (\<lambda>r. r_fromId r \<noteq> sid \<and> r_toId r \<noteq> sid)
                            (relationships (current c)) \<rparr>
        (handleDeleteSelected c)"
    by (rule d)
  show "sid \<notin> e_id ` set (entities (current (handleDeleteSelected c)))"
    by (auto simp add: commits_snapshot_current [OF h d])
  show "\<forall>r \<in> set (relationships (current (handleDeleteSelected c))).
          r_fromId r \<noteq> sid \<and> r_toId r \<noteq> sid"
    by (simp add: commits_snapshot_current [OF h d])
next
  assume a: "pp_selectedEntityId p = Some sid \<and> sid \<noteq> []"
  then have s: "pp_selectedEntityId p = Some sid" and n: "sid \<noteq> []"
    by simp_all
  show "pp_entities (pp_deleteSelected p) = (pp_entities p)(sid := None)"
    by (rule pp_deleteSelected_entity(1) [OF s n])
  show "set (pp_relationships (pp_deleteSelected p)) \<subseteq> set (pp_relationships p)"
    by (auto simp add: pp_deleteSelected_entity(2) [OF s n])
  show "\<forall>r \<in> set (pp_relationships (pp_deleteSelected p)).
          r_fromId r \<noteq> sid \<and> r_toId r \<noteq> sid"
    by (simp add: pp_deleteSelected_entity(2) [OF s n])
qed

theorem removeShape_cascades_witness:
  "hist_ok (demoState\<lparr> selectedEntityId := Some ''b'' \<rparr>)
   \<and> selectedEntityId (demoState\<lparr> selectedEntityId := Some ''b'' \<rparr>) = Some ''b''
   \<and> pp_selectedEntityId (demoPlus\<lparr> pp_selectedEntityId := Some ''b'' \<rparr>) = Some ''b''
   \<and> history (handleDeleteSelected (demoState\<lparr> selectedEntityId := Some ''b'' \<rparr>)) =
       history demoState @ [\<lparr> entities = [demoA, demoC], relationships = [] \<rparr>]
   \<and> historyIndex (handleDeleteSelected (demoState\<lparr> selectedEntityId := Some ''b'' \<rparr>)) = 2
   \<and> pp_entities (pp_deleteSelected (demoPlus\<lparr> pp_selectedEntityId := Some ''b'' \<rparr>)) ''b'' = None
   \<and> pp_relationships (pp_deleteSelected (demoPlus\<lparr> pp_selectedEntityId := Some ''b'' \<rparr>)) = []"
proof -
  let ?S = "demoState\<lparr> selectedEntityId := Some ''b'' \<rparr>"
  let ?P = "demoPlus\<lparr> pp_selectedEntityId := Some ''b'' \<rparr>"
  have h: "hist_ok ?S \<and> selectedEntityId ?S = Some ''b'' \<and> ''b'' \<noteq> []"
    by (simp add: hist_ok_def)
  have q: "pp_selectedEntityId ?P = Some ''b'' \<and> ''b'' \<noteq> []"
    by simp
  have cur: "current ?S = \<lparr> entities = [demoA, demoB, demoC], relationships = [demoAB, demoBC] \<rparr>"
    "history ?S = history demoState" "historyIndex ?S = 1"
    by (simp_all add: current_def)
  have rels: "pp_relationships ?P = [demoAB]"
    by simp
  note t = removeShape_cascades [of ?S "''b''" ?P]
  have d: "commits_snapshot ?S
        \<lparr> entities = filter (\<lambda>e. e_id e \<noteq> ''b'') (entities (current ?S)),
          relationships = filter (\<lambda>r. r_fromId r \<noteq> ''b'' \<and> r_toId r \<noteq> ''b'')
                            (relationships (current ?S)) \<rparr>
        (handleDeleteSelected ?S)"
    using t h by blast
  have e: "pp_entities (pp_deleteSelected ?P) = (pp_entities ?P)(''b'' := None)"
    and sub: "set (pp_relationships (pp_deleteSelected ?P)) \<subseteq> set (pp_relationships ?P)"
    and f: "\<forall>r \<in> set (pp_relationships (pp_deleteSelected ?P)). r_fromId r \<noteq> ''b'' \<and> r_toId r \<noteq> ''b''"
    using t q by blast+
  have "pp_relationships (pp_deleteSelected ?P) = []"
  proof (cases "pp_relationships (pp_deleteSelected ?P)")
    case Nil
    then show ?thesis .
  next
    case (Cons r rs)
    then have "r \<in> set (pp_relationships ?P)" "r_toId r \<noteq> ''b''"
      using sub f by auto
    then show ?thesis unfolding rels by simp
  qed
  then show ?thesis
    using h q d e unfolding commits_snapshot_def cur by simp
qed

section \<open>Connecting two shapes\<close>


lemma handleFinishEditing_hist_ok:
  "hist_ok c \<Longrightarrow> hist_ok (handleFinishEditing textarea c c)"
  by (simp add: handleFinishEditing_def setEntities_def hist_ok_updateState split: option.splits)








lemma string_of_nat_now: "string_of_nat 1700000000000 = ''1700000000000''"
  by (simp add: string_of_nat.simps)











section \<open>Adding a shape\<close>

lemma digit_value: "d < 10 \<Longrightarrow> (of_char (''0123456789'' ! d) :: nat) = 48 + d"
  by (auto simp add: less_Suc_eq numeral_eq_Suc)

lemma decimal_value_snoc:
  "decimal_value (str @ [ch]) = 10 * decimal_value str + (of_char ch - 48)"
  by (simp add: decimal_value_def)

lemma decimal_value_string_of_nat: "decimal_value (string_of_nat n) = n"
proof (induction n rule: string_of_nat.induct)
  case (1 n)
  show ?case
  proof (cases "n < 10")
    case True
    then show ?thesis
      by (subst string_of_nat.simps) (simp add: decimal_value_def digit_value)
  next
    case False
    then have "decimal_value (string_of_nat (n div 10)) = n div 10"
      using "1.IH" by simp
    then show ?thesis
      using False
      by (subst string_of_nat.simps) (simp add: decimal_value_snoc digit_value)
  qed
qed

lemma handleAddEntity_commits:
  "hist_ok c \<Longrightarrow>
     commits_snapshot c
       \<lparr> entities = entities (current c) @ [newEntity type container newId (entities (current c))],
         relationships = relationships (current c) \<rparr>
       (handleAddEntity type container newId c)"
  using commits_snapshot_updateState [of c
      "Fn (\<lambda>prev. prev @ [newEntity type container newId (entities (current c))])"
      "Val (relationships (current c))" c]
  by (simp add: handleAddEntity_def)

lemma toLowerCase_EntityType:
  "toLowerCase ''Entity'' = ''entity''"
  "toLowerCase ''Action'' = ''action''"
  "toLowerCase ''Attribute'' = ''attribute''"
  by code_simp+

text \<open>
  C9, as amended. In the editor with history, adding a shape commits the current shapes
  followed by the new one, with the connections unchanged; the new shape has the given
  kind, the extent 120 by 120 for an action and 150 by 75 for an entity or an attribute,
  and the name made of the kind, a space and the decimal numeral of one more than the
  number of current shapes of that kind. In \<^verbatim>\<open>plus_page.tsx\<close> a new shape of any
  kind has the extent 150 by 75 and the kind alone as its name.
\<close>

theorem new_shape_defaults:
  "(hist_ok c \<longrightarrow>
      entities (current (handleAddEntity type container newId c)) =
        entities (current c) @ [last (entities (current (handleAddEntity type container newId c)))]
    \<and> relationships (current (handleAddEntity type container newId c)) = relationships (current c)
    \<and> e_id (last (entities (current (handleAddEntity type container newId c)))) = newId
    \<and> e_type (last (entities (current (handleAddEntity type container newId c)))) = type
    \<and> e_width (last (entities (current (handleAddEntity type container newId c)))) =
        (if type = Action then 120 else 150)
    \<and> e_height (last (entities (current (handleAddEntity type container newId c)))) =
        (if type = Action then 120 else 75)
    \<and> e_name (last (entities (current (handleAddEntity type container newId c)))) =
        string_of_EntityType type @ '' '' @
          string_of_nat (length (filter (\<lambda>e. e_type e = type) (entities (current c))) + 1))
   \<and> decimal_value (string_of_nat n) = n
   \<and> pp_entities (pp_addEntity type now p)
        (toLowerCase (string_of_EntityType type) @ ''_'' @ string_of_nat now) =
       Some \<lparr> e_id = toLowerCase (string_of_EntityType type) @ ''_'' @ string_of_nat now,
              e_x = 100, e_y = 100, e_width = 150, e_height = 75,
              e_name = string_of_EntityType type, e_type = type \<rparr>"
proof (intro conjI impI)
  show "decimal_value (string_of_nat n) = n"
    by (rule decimal_value_string_of_nat)
  show "pp_entities (pp_addEntity type now p)
        (toLowerCase (string_of_EntityType type) @ ''_'' @ string_of_nat now) =
       Some \<lparr> e_id = toLowerCase (string_of_EntityType type) @ ''_'' @ string_of_nat now,
              e_x = 100, e_y = 100, e_width = 150, e_height = 75,
              e_name = string_of_EntityType type, e_type = type \<rparr>"
    by (simp add: pp_addEntity_def Let_def)
next
  assume h: "hist_ok c"
  have cur: "current (handleAddEntity type container newId c) =
      \<lparr> entities = entities (current c) @ [newEntity type container newId (entities (current c))],
        relationships = relationships (current c) \<rparr>"
    by (rule commits_snapshot_current [OF h handleAddEntity_commits [OF h]])
  show "entities (current (handleAddEntity type container newId c)) =
        entities (current c) @ [last (entities (current (handleAddEntity type container newId c)))]"
    by (simp add: cur)
  show "relationships (current (handleAddEntity type container newId c)) = relationships (current c)"
    by (simp add: cur)
  show "e_id (last (entities (current (handleAddEntity type container newId c)))) = newId"
    by (simp add: cur newEntity_def Let_def)
  show "e_type (last (entities (current (handleAddEntity type container newId c)))) = type"
    by (simp add: cur newEntity_def Let_def)
  show "e_width (last (entities (current (handleAddEntity type container newId c)))) =
        (if type = Action then 120 else 150)"
    by (simp add: cur newEntity_def Let_def)
  show "e_height (last (entities (current (handleAddEntity type container newId c)))) =
        (if type = Action then 120 else 75)"
    by (simp add: cur newEntity_def Let_def)
  show "e_name (last (entities (current (handleAddEntity type container newId c)))) =
        string_of_EntityType type @ '' '' @
          string_of_nat (length (filter (\<lambda>e. e_type e = type) (entities (current c))) + 1)"
    by (simp add: cur newEntity_def Let_def)
qed

text \<open>
  In \<^verbatim>\<open>plus_page.tsx\<close> a third action is named \<open>Action\<close> and is as large as an
  entity.
\<close>

theorem new_shape_defaults_counterexample:
  "pp_entities (pp_addEntity Action 1700000000000 demoPlus) ''action_1700000000000'' =
     Some \<lparr> e_id = ''action_1700000000000'', e_x = 100, e_y = 100, e_width = 150, e_height = 75,
            e_name = ''Action'', e_type = Action \<rparr>
   \<and> pp_entities (pp_addEntity Entity 1700000000000 demoPlus) ''entity_1700000000000'' =
     Some \<lparr> e_id = ''entity_1700000000000'', e_x = 100, e_y = 100, e_width = 150, e_height = 75,
            e_name = ''Entity'', e_type = Entity \<rparr>
   \<and> ''Action'' \<noteq> ''Action 3''"
  by (simp add: pp_addEntity_def Let_def toLowerCase_EntityType string_of_nat_now)

theorem new_shape_defaults_witness:
  "hist_ok demoState
   \<and> last (entities (current (handleAddEntity Action None ''d'' demoState))) =
       \<lparr> e_id = ''d'', e_x = 50, e_y = 50, e_width = 120, e_height = 120,
         e_name = ''Action 3'', e_type = Action \<rparr>
   \<and> e_name (last (entities (current (handleAddEntity Entity None ''d'' demoState)))) = ''Entity 2''
   \<and> e_width (last (entities (current (handleAddEntity Entity None ''d'' demoState)))) = 150
   \<and> e_height (last (entities (current (handleAddEntity Entity None ''d'' demoState)))) = 75
   \<and> decimal_value (string_of_nat 12) = 12"
proof -
  have h: "hist_ok demoState"
    by (simp add: hist_ok_def)
  have cur: "entities (current demoState) = [demoA, demoB, demoC]"
    by (simp add: current_def)
  have n2: "string_of_nat 2 = ''2''"
    by (simp add: string_of_nat.simps)
  have n3': "string_of_nat (Suc (Suc (Suc 0))) = ''3''"
    by (subst string_of_nat.simps) simp
  have cntA: "length (filter (\<lambda>e. e_type e = Action) [demoA, demoB, demoC]) + 1 = 3"
    and cntE: "length (filter (\<lambda>e. e_type e = Entity) [demoA, demoB, demoC]) + 1 = 2"
    by simp_all
  note a = new_shape_defaults [of demoState Action None "''d''" 12 1 demoPlus]
  note e = new_shape_defaults [of demoState Entity None "''d''" 12 1 demoPlus]
  note e' = e [THEN conjunct1, rule_format, OF h]
  have e1: "e_name (last (entities (current (handleAddEntity Entity None ''d'' demoState)))) = ''Entity 2''"
    using e' [THEN conjunct2, THEN conjunct2, THEN conjunct2, THEN conjunct2, THEN conjunct2,
        THEN conjunct2]
    unfolding cur cntE n2 by simp
  have e2: "e_width (last (entities (current (handleAddEntity Entity None ''d'' demoState)))) = 150"
    using e' [THEN conjunct2, THEN conjunct2, THEN conjunct2, THEN conjunct2, THEN conjunct1]
    by simp
  have e3: "e_height (last (entities (current (handleAddEntity Entity None ''d'' demoState)))) = 75"
    using e' [THEN conjunct2, THEN conjunct2, THEN conjunct2, THEN conjunct2, THEN conjunct2,
        THEN conjunct1]
    by simp
  have a2: "last (entities (current (handleAddEntity Action None ''d'' demoState))) =
       \<lparr> e_id = ''d'', e_x = 50, e_y = 50, e_width = 120, e_height = 120,
         e_name = ''Action 3'', e_type = Action \<rparr>"
    by (simp add: handleAddEntity_def updateState_def current_def newEntity_def Let_def n3')
  have d: "decimal_value (string_of_nat 12) = 12"
    using a by blast
  show ?thesis
    by (intro conjI h a2 e1 e2 e3 d)
qed

section \<open>Connector routes\<close>

lemma hypot_neg: "hypot (- a) (- b) = hypot a b"
  by (simp add: hypot_def)

lemma hypot_swap: "hypot (a - b) (c - d) = hypot (b - a) (d - c)"
  by (simp add: hypot_def power2_commute)

lemma searched_visit:
  assumes "searched S st"
  shows "searched (insert (f, t) S) (visit f t st)"
proof (cases "fst st")
  case None
  then show ?thesis
    using assms by (simp add: searched_def visit_def less_minDistance_def Let_def)
next
  case (Some m)
  let ?d = "hypot (p_x f - p_x t) (p_y f - p_y t)"
  show ?thesis
  proof (cases "?d < m")
    case True
    then have v: "visit f t st = (Some ?d, \<lparr> best_from = f, best_to = t \<rparr>)"
      using Some by (simp add: visit_def less_minDistance_def Let_def)
    have "\<forall>q \<in> S. ?d \<le> hypot (p_x (fst q) - p_x (snd q)) (p_y (fst q) - p_y (snd q))"
      using assms Some True by (fastforce simp add: searched_def)
    then show ?thesis
      by (simp add: v searched_def)
  next
    case False
    then have v: "visit f t st = st"
      using Some by (simp add: visit_def less_minDistance_def Let_def)
    show ?thesis
      using assms Some False by (auto simp add: v searched_def)
  qed
qed

lemma searched_inner_loop:
  "searched S st \<Longrightarrow> searched (S \<union> {f} \<times> set ts) (inner_loop f ts st)"
proof (induction ts arbitrary: S st)
  case Nil
  then show ?case by simp
next
  case (Cons t ts)
  have "searched (insert (f, t) S \<union> {f} \<times> set ts) (inner_loop f ts (visit f t st))"
    by (rule Cons.IH [OF searched_visit [OF Cons.prems]])
  moreover have "insert (f, t) S \<union> {f} \<times> set ts = S \<union> {f} \<times> set (t # ts)"
    by auto
  ultimately show ?case by simp
qed

lemma searched_outer_loop:
  "searched S st \<Longrightarrow> searched (S \<union> set fs \<times> set ts) (outer_loop fs ts st)"
proof (induction fs arbitrary: S st)
  case Nil
  then show ?case by simp
next
  case (Cons f fs)
  have "searched ((S \<union> {f} \<times> set ts) \<union> set fs \<times> set ts) (outer_loop fs ts (inner_loop f ts st))"
    by (rule Cons.IH [OF searched_inner_loop [OF Cons.prems]])
  moreover have "(S \<union> {f} \<times> set ts) \<union> set fs \<times> set ts = S \<union> set (f # fs) \<times> set ts"
    by auto
  ultimately show ?case by simp
qed

lemma getAnchors_nonempty: "set (getAnchors e) \<noteq> {}" "length (getAnchors e) = 4"
  by (simp_all add: getAnchors_def)

lemma findBestPoints_minimal:
  "best_from (findBestPoints a b) \<in> set (getAnchors a)"
  "best_to (findBestPoints a b) \<in> set (getAnchors b)"
  "f \<in> set (getAnchors a) \<Longrightarrow> t \<in> set (getAnchors b) \<Longrightarrow>
     hypot (p_x (best_from (findBestPoints a b)) - p_x (best_to (findBestPoints a b)))
           (p_y (best_from (findBestPoints a b)) - p_y (best_to (findBestPoints a b)))
       \<le> hypot (p_x f - p_x t) (p_y f - p_y t)"
proof -
  let ?init = "(None, \<lparr> best_from = getAnchors a ! 0, best_to = getAnchors b ! 0 \<rparr>)"
  let ?st = "outer_loop (getAnchors a) (getAnchors b) ?init"
  have "searched {} ?init"
    by (simp add: searched_def)
  then have s: "searched (set (getAnchors a) \<times> set (getAnchors b)) ?st"
    using searched_outer_loop [of "{}" ?init "getAnchors a" "getAnchors b"] by simp
  have ne: "set (getAnchors a) \<times> set (getAnchors b) \<noteq> {}"
    using getAnchors_nonempty(1) by auto
  obtain m where m: "fst ?st = Some m"
    using s ne by (cases "fst ?st") (auto simp add: searched_def)
  have b: "findBestPoints a b = snd ?st"
    by (simp add: findBestPoints_def Let_def)
  show "best_from (findBestPoints a b) \<in> set (getAnchors a)"
    and "best_to (findBestPoints a b) \<in> set (getAnchors b)"
    using s m by (auto simp add: searched_def b)
  show "hypot (p_x (best_from (findBestPoints a b)) - p_x (best_to (findBestPoints a b)))
           (p_y (best_from (findBestPoints a b)) - p_y (best_to (findBestPoints a b)))
       \<le> hypot (p_x f - p_x t) (p_y f - p_y t)"
    if "f \<in> set (getAnchors a)" "t \<in> set (getAnchors b)"
    using s m that by (auto simp add: searched_def b)
qed

lemma atan2_opposite:
  assumes "x \<noteq> 0 \<or> y \<noteq> 0"
  shows "atan2 (- y) (- x) = atan2 y x + pi \<or> atan2 (- y) (- x) = atan2 y x - pi"
proof -
  consider "0 < x" | "x < 0" | "x = 0" "0 < y" | "x = 0" "y < 0"
    using assms by linarith
  then show ?thesis
  proof cases
    case 1
    then show ?thesis by (simp add: atan2_def)
  next
    case 2
    then show ?thesis by (simp add: atan2_def)
  next
    case 3
    then show ?thesis by (simp add: atan2_def)
  next
    case 4
    then show ?thesis by (simp add: atan2_def)
  qed
qed

lemma cos_atan2_opposite:
  assumes "x \<noteq> 0 \<or> y \<noteq> 0"
  shows "cos (atan2 (- y) (- x)) = - cos (atan2 y x)"
    and "sin (atan2 (- y) (- x)) = - sin (atan2 y x)"
  using atan2_opposite [OF assms] by auto

lemma findBestPoints_swap:
  assumes u: "\<forall>f' \<in> set (getAnchors a). \<forall>t' \<in> set (getAnchors b).
      hypot (p_x f' - p_x t') (p_y f' - p_y t') =
        hypot (p_x (best_from (findBestPoints a b)) - p_x (best_to (findBestPoints a b)))
              (p_y (best_from (findBestPoints a b)) - p_y (best_to (findBestPoints a b)))
      \<longrightarrow> f' = best_from (findBestPoints a b) \<and> t' = best_to (findBestPoints a b)"
  shows "findBestPoints b a =
           \<lparr> best_from = best_to (findBestPoints a b), best_to = best_from (findBestPoints a b) \<rparr>"
proof -
  let ?f = "best_from (findBestPoints a b)" and ?t = "best_to (findBestPoints a b)"
  let ?f' = "best_to (findBestPoints b a)" and ?t' = "best_from (findBestPoints b a)"
  have f': "?f' \<in> set (getAnchors a)" and t': "?t' \<in> set (getAnchors b)"
    by (rule findBestPoints_minimal)+
  have f: "?f \<in> set (getAnchors a)" and t: "?t \<in> set (getAnchors b)"
    by (rule findBestPoints_minimal)+
  have "hypot (p_x ?t' - p_x ?f') (p_y ?t' - p_y ?f') \<le> hypot (p_x ?t - p_x ?f) (p_y ?t - p_y ?f)"
    by (rule findBestPoints_minimal(3) [OF t f])
  then have le1: "hypot (p_x ?f' - p_x ?t') (p_y ?f' - p_y ?t') \<le> hypot (p_x ?f - p_x ?t) (p_y ?f - p_y ?t)"
    by (simp add: hypot_swap [of "p_x ?f'"] hypot_swap [of "p_x ?f"])
  have le2: "hypot (p_x ?f - p_x ?t) (p_y ?f - p_y ?t) \<le> hypot (p_x ?f' - p_x ?t') (p_y ?f' - p_y ?t')"
    by (rule findBestPoints_minimal(3) [OF f' t'])
  have "?f' = ?f \<and> ?t' = ?t"
    using u f' t' le1 le2 by (simp add: order_antisym)
  then show ?thesis
    by simp
qed

lemma points_calculate:
  "points (calculateRelationshipRenderProps a b) =
     [p_x (best_from (findBestPoints a b)), p_y (best_from (findBestPoints a b)),
      p_x (best_to (findBestPoints a b)), p_y (best_to (findBestPoints a b))]"
  by (simp add: calculateRelationshipRenderProps_def Let_def)

lemma symbols_calculate:
  "startSymbolProps (calculateRelationshipRenderProps a b) =
     \<lparr> s_x = p_x (best_from (findBestPoints a b)) +
             20 * cos (atan2 (p_y (best_to (findBestPoints a b)) - p_y (best_from (findBestPoints a b)))
                             (p_x (best_to (findBestPoints a b)) - p_x (best_from (findBestPoints a b)))),
       s_y = p_y (best_from (findBestPoints a b)) +
             20 * sin (atan2 (p_y (best_to (findBestPoints a b)) - p_y (best_from (findBestPoints a b)))
                             (p_x (best_to (findBestPoints a b)) - p_x (best_from (findBestPoints a b)))),
       rotation = atan2 (p_y (best_to (findBestPoints a b)) - p_y (best_from (findBestPoints a b)))
                        (p_x (best_to (findBestPoints a b)) - p_x (best_from (findBestPoints a b)))
                    * (180 / pi) + 180 \<rparr>"
  "endSymbolProps (calculateRelationshipRenderProps a b) =
     \<lparr> s_x = p_x (best_to (findBestPoints a b)) -
             20 * cos (atan2 (p_y (best_to (findBestPoints a b)) - p_y (best_from (findBestPoints a b)))
                             (p_x (best_to (findBestPoints a b)) - p_x (best_from (findBestPoints a b)))),
       s_y = p_y (best_to (findBestPoints a b)) -
             20 * sin (atan2 (p_y (best_to (findBestPoints a b)) - p_y (best_from (findBestPoints a b)))
                             (p_x (best_to (findBestPoints a b)) - p_x (best_from (findBestPoints a b)))),
       rotation = atan2 (p_y (best_to (findBestPoints a b)) - p_y (best_from (findBestPoints a b)))
                        (p_x (best_to (findBestPoints a b)) - p_x (best_from (findBestPoints a b)))
                    * (180 / pi) \<rparr>"
  by (simp_all add: calculateRelationshipRenderProps_def Let_def)

lemma markers_swap:
  assumes sw: "findBestPoints b a =
      \<lparr> best_from = best_to (findBestPoints a b), best_to = best_from (findBestPoints a b) \<rparr>"
    and ne: "best_from (findBestPoints a b) \<noteq> best_to (findBestPoints a b)"
  shows "s_x (startSymbolProps (calculateRelationshipRenderProps b a)) =
           s_x (endSymbolProps (calculateRelationshipRenderProps a b))"
    and "s_y (startSymbolProps (calculateRelationshipRenderProps b a)) =
           s_y (endSymbolProps (calculateRelationshipRenderProps a b))"
    and "s_x (endSymbolProps (calculateRelationshipRenderProps b a)) =
           s_x (startSymbolProps (calculateRelationshipRenderProps a b))"
    and "s_y (endSymbolProps (calculateRelationshipRenderProps b a)) =
           s_y (startSymbolProps (calculateRelationshipRenderProps a b))"
    and "rotation (startSymbolProps (calculateRelationshipRenderProps b a)) =
           rotation (endSymbolProps (calculateRelationshipRenderProps a b))
         \<or> rotation (startSymbolProps (calculateRelationshipRenderProps b a)) =
           rotation (endSymbolProps (calculateRelationshipRenderProps a b)) + 360"
    and "rotation (endSymbolProps (calculateRelationshipRenderProps b a)) =
           rotation (startSymbolProps (calculateRelationshipRenderProps a b))
         \<or> rotation (endSymbolProps (calculateRelationshipRenderProps b a)) =
           rotation (startSymbolProps (calculateRelationshipRenderProps a b)) - 360"
proof -
  let ?f = "best_from (findBestPoints a b)" and ?t = "best_to (findBestPoints a b)"
  let ?dx = "p_x ?t - p_x ?f" and ?dy = "p_y ?t - p_y ?f"
  have nz: "?dx \<noteq> 0 \<or> ?dy \<noteq> 0"
    using ne by (auto intro: Point.equality)
  have rev: "p_x ?f - p_x ?t = - ?dx" "p_y ?f - p_y ?t = - ?dy"
    by simp_all
  note c = cos_atan2_opposite [OF nz]
  show "s_x (startSymbolProps (calculateRelationshipRenderProps b a)) =
           s_x (endSymbolProps (calculateRelationshipRenderProps a b))"
    unfolding symbols_calculate sw by (simp only: BestPoints.simps SymbolProps.simps rev c; simp)
  show "s_y (startSymbolProps (calculateRelationshipRenderProps b a)) =
           s_y (endSymbolProps (calculateRelationshipRenderProps a b))"
    unfolding symbols_calculate sw by (simp only: BestPoints.simps SymbolProps.simps rev c; simp)
  show "s_x (endSymbolProps (calculateRelationshipRenderProps b a)) =
           s_x (startSymbolProps (calculateRelationshipRenderProps a b))"
    unfolding symbols_calculate sw by (simp only: BestPoints.simps SymbolProps.simps rev c; simp)
  show "s_y (endSymbolProps (calculateRelationshipRenderProps b a)) =
           s_y (startSymbolProps (calculateRelationshipRenderProps a b))"
    unfolding symbols_calculate sw by (simp only: BestPoints.simps SymbolProps.simps rev c; simp)
  define th where "th = atan2 ?dy ?dx"
  define th' where "th' = atan2 (p_y ?f - p_y ?t) (p_x ?f - p_x ?t)"
  define d where "d = th * (180 / pi)"
  define d' where "d' = th' * (180 / pi)"
  have opp: "th' = th + pi \<or> th' = th - pi"
    using atan2_opposite [OF nz] unfolding th_def th'_def rev .
  have deg: "(x + pi) * (180 / pi) = x * (180 / pi) + 180"
    "(x - pi) * (180 / pi) = x * (180 / pi) - 180" for x :: real
    by (simp_all add: field_simps)
  have dd: "d' = d + 180 \<or> d' = d - 180"
  proof (rule disjE [OF opp])
    assume "th' = th + pi"
    then have "d' = d + 180"
      unfolding d_def d'_def by (simp only: deg)
    then show ?thesis ..
  next
    assume "th' = th - pi"
    then have "d' = d - 180"
      unfolding d_def d'_def by (simp only: deg)
    then show ?thesis ..
  qed
  have r: "rotation (startSymbolProps (calculateRelationshipRenderProps b a)) = d' + 180"
    "rotation (endSymbolProps (calculateRelationshipRenderProps b a)) = d'"
    "rotation (startSymbolProps (calculateRelationshipRenderProps a b)) = d + 180"
    "rotation (endSymbolProps (calculateRelationshipRenderProps a b)) = d"
    unfolding symbols_calculate sw th_def th'_def d_def d'_def by simp_all
  show "rotation (startSymbolProps (calculateRelationshipRenderProps b a)) =
           rotation (endSymbolProps (calculateRelationshipRenderProps a b))
         \<or> rotation (startSymbolProps (calculateRelationshipRenderProps b a)) =
           rotation (endSymbolProps (calculateRelationshipRenderProps a b)) + 360"
    unfolding r using dd by auto
  show "rotation (endSymbolProps (calculateRelationshipRenderProps b a)) =
           rotation (startSymbolProps (calculateRelationshipRenderProps a b))
         \<or> rotation (endSymbolProps (calculateRelationshipRenderProps b a)) =
           rotation (startSymbolProps (calculateRelationshipRenderProps a b)) - 360"
    unfolding r using dd by auto
qed

lemma visit_None:
  "visit f t (None, b) =
     (Some (hypot (p_x f - p_x t) (p_y f - p_y t)), \<lparr> best_from = f, best_to = t \<rparr>)"
  by (simp add: visit_def less_minDistance_def)

lemma visit_hypot:
  "visit f t (Some (hypot c d), b) =
     (if (p_x f - p_x t)\<^sup>2 + (p_y f - p_y t)\<^sup>2 < c\<^sup>2 + d\<^sup>2
      then (Some (hypot (p_x f - p_x t) (p_y f - p_y t)), \<lparr> best_from = f, best_to = t \<rparr>)
      else (Some (hypot c d), b))"
  by (simp add: visit_def less_minDistance_def hypot_def)

text \<open>
  C8, as amended. The route between two shapes joins an edge midpoint of the first to an
  edge midpoint of the second, and no other of the 4 by 4 pairs of edge midpoints is
  closer. When that pair is the only one at the least distance, the route in the other
  direction joins the same two points in the other order; when moreover the two points
  differ, the markers change places: the start marker of one route sits where the end
  marker of the other sits, and their rotations agree up to a full turn of 360 degrees.
\<close>

theorem connector_route_symmetry:
  "f = best_from (findBestPoints a b) \<Longrightarrow> t = best_to (findBestPoints a b) \<Longrightarrow>
     length (getAnchors a) = 4 \<and> length (getAnchors b) = 4
   \<and> f \<in> set (getAnchors a) \<and> t \<in> set (getAnchors b)
   \<and> (\<forall>f' \<in> set (getAnchors a). \<forall>t' \<in> set (getAnchors b).
         hypot (p_x f - p_x t) (p_y f - p_y t) \<le> hypot (p_x f' - p_x t') (p_y f' - p_y t'))
   \<and> points (calculateRelationshipRenderProps a b) = [p_x f, p_y f, p_x t, p_y t]
   \<and> ((\<forall>f' \<in> set (getAnchors a). \<forall>t' \<in> set (getAnchors b).
          hypot (p_x f' - p_x t') (p_y f' - p_y t') = hypot (p_x f - p_x t) (p_y f - p_y t)
            \<longrightarrow> f' = f \<and> t' = t) \<longrightarrow>
        points (calculateRelationshipRenderProps b a) = [p_x t, p_y t, p_x f, p_y f]
      \<and> (f \<noteq> t \<longrightarrow>
            s_x (startSymbolProps (calculateRelationshipRenderProps b a)) =
              s_x (endSymbolProps (calculateRelationshipRenderProps a b))
          \<and> s_y (startSymbolProps (calculateRelationshipRenderProps b a)) =
              s_y (endSymbolProps (calculateRelationshipRenderProps a b))
          \<and> s_x (endSymbolProps (calculateRelationshipRenderProps b a)) =
              s_x (startSymbolProps (calculateRelationshipRenderProps a b))
          \<and> s_y (endSymbolProps (calculateRelationshipRenderProps b a)) =
              s_y (startSymbolProps (calculateRelationshipRenderProps a b))
          \<and> (rotation (startSymbolProps (calculateRelationshipRenderProps b a)) =
                rotation (endSymbolProps (calculateRelationshipRenderProps a b))
              \<or> rotation (startSymbolProps (calculateRelationshipRenderProps b a)) =
                rotation (endSymbolProps (calculateRelationshipRenderProps a b)) + 360)
          \<and> (rotation (endSymbolProps (calculateRelationshipRenderProps b a)) =
                rotation (startSymbolProps (calculateRelationshipRenderProps a b))
              \<or> rotation (endSymbolProps (calculateRelationshipRenderProps b a)) =
                rotation (startSymbolProps (calculateRelationshipRenderProps a b)) - 360)))"
proof -
  assume f: "f = best_from (findBestPoints a b)" and t: "t = best_to (findBestPoints a b)"
  have len: "length (getAnchors a) = 4" "length (getAnchors b) = 4"
    by (rule getAnchors_nonempty(2))+
  have mem: "f \<in> set (getAnchors a)" "t \<in> set (getAnchors b)"
    unfolding f t by (rule findBestPoints_minimal)+
  have least: "\<forall>f' \<in> set (getAnchors a). \<forall>t' \<in> set (getAnchors b).
         hypot (p_x f - p_x t) (p_y f - p_y t) \<le> hypot (p_x f' - p_x t') (p_y f' - p_y t')"
    unfolding f t using findBestPoints_minimal(3) by blast
  have line: "points (calculateRelationshipRenderProps a b) = [p_x f, p_y f, p_x t, p_y t]"
    unfolding f t by (rule points_calculate)
  have sym: "points (calculateRelationshipRenderProps b a) = [p_x t, p_y t, p_x f, p_y f]
      \<and> (f \<noteq> t \<longrightarrow>
            s_x (startSymbolProps (calculateRelationshipRenderProps b a)) =
              s_x (endSymbolProps (calculateRelationshipRenderProps a b))
          \<and> s_y (startSymbolProps (calculateRelationshipRenderProps b a)) =
              s_y (endSymbolProps (calculateRelationshipRenderProps a b))
          \<and> s_x (endSymbolProps (calculateRelationshipRenderProps b a)) =
              s_x (startSymbolProps (calculateRelationshipRenderProps a b))
          \<and> s_y (endSymbolProps (calculateRelationshipRenderProps b a)) =
              s_y (startSymbolProps (calculateRelationshipRenderProps a b))
          \<and> (rotation (startSymbolProps (calculateRelationshipRenderProps b a)) =
                rotation (endSymbolProps (calculateRelationshipRenderProps a b))
              \<or> rotation (startSymbolProps (calculateRelationshipRenderProps b a)) =
                rotation (endSymbolProps (calculateRelationshipRenderProps a b)) + 360)
          \<and> (rotation (endSymbolProps (calculateRelationshipRenderProps b a)) =
                rotation (startSymbolProps (calculateRelationshipRenderProps a b))
              \<or> rotation (endSymbolProps (calculateRelationshipRenderProps b a)) =
                rotation (startSymbolProps (calculateRelationshipRenderProps a b)) - 360))"
    if u: "\<forall>f' \<in> set (getAnchors a). \<forall>t' \<in> set (getAnchors b).
          hypot (p_x f' - p_x t') (p_y f' - p_y t') = hypot (p_x f - p_x t) (p_y f - p_y t)
            \<longrightarrow> f' = f \<and> t' = t"
  proof -
    have sw: "findBestPoints b a =
        \<lparr> best_from = best_to (findBestPoints a b), best_to = best_from (findBestPoints a b) \<rparr>"
      using u unfolding f t by (rule findBestPoints_swap)
    have "points (calculateRelationshipRenderProps b a) = [p_x t, p_y t, p_x f, p_y f]"
      unfolding f t points_calculate [of b a] sw by simp
    moreover have "s_x (startSymbolProps (calculateRelationshipRenderProps b a)) =
              s_x (endSymbolProps (calculateRelationshipRenderProps a b))
          \<and> s_y (startSymbolProps (calculateRelationshipRenderProps b a)) =
              s_y (endSymbolProps (calculateRelationshipRenderProps a b))
          \<and> s_x (endSymbolProps (calculateRelationshipRenderProps b a)) =
              s_x (startSymbolProps (calculateRelationshipRenderProps a b))
          \<and> s_y (endSymbolProps (calculateRelationshipRenderProps b a)) =
              s_y (startSymbolProps (calculateRelationshipRenderProps a b))
          \<and> (rotation (startSymbolProps (calculateRelationshipRenderProps b a)) =
                rotation (endSymbolProps (calculateRelationshipRenderProps a b))
              \<or> rotation (startSymbolProps (calculateRelationshipRenderProps b a)) =
                rotation (endSymbolProps (calculateRelationshipRenderProps a b)) + 360)
          \<and> (rotation (endSymbolProps (calculateRelationshipRenderProps b a)) =
                rotation (startSymbolProps (calculateRelationshipRenderProps a b))
              \<or> rotation (endSymbolProps (calculateRelationshipRenderProps b a)) =
                rotation (startSymbolProps (calculateRelationshipRenderProps a b)) - 360)"
      if ne: "f \<noteq> t"
      using ne unfolding f t by (intro conjI markers_swap [OF sw])
    ultimately show ?thesis by blast
  qed
  show ?thesis
    using len mem least line sym by blast
qed


text \<open>
  Two actions placed diagonally have two pairs of edge midpoints at the same least
  distance, and each direction takes the first one in its own order of evaluation: the
  two routes are different segments. Two actions that touch have a route of length 0,
  and both directions put the start marker to its right.
\<close>

theorem connector_route_symmetry_counterexample:
  "points (calculateRelationshipRenderProps demoA demoB) = [160, 300, 300, 160]
   \<and> points (calculateRelationshipRenderProps demoB demoA) = [360, 220, 220, 360]
   \<and> [360, 220, 220, 360] \<noteq> [300, 160, 160, (300::real)]
   \<and> hypot (160 - 300) (300 - 160) = hypot (360 - 220) (220 - 360)
   \<and> points (calculateRelationshipRenderProps demoB (demoB\<lparr> e_id := ''e'', e_x := 420 \<rparr>)) =
       [420, 160, 420, 160]
   \<and> points (calculateRelationshipRenderProps (demoB\<lparr> e_id := ''e'', e_x := 420 \<rparr>) demoB) =
       [420, 160, 420, 160]
   \<and> s_x (endSymbolProps (calculateRelationshipRenderProps demoB (demoB\<lparr> e_id := ''e'', e_x := 420 \<rparr>))) = 400
   \<and> s_x (startSymbolProps (calculateRelationshipRenderProps (demoB\<lparr> e_id := ''e'', e_x := 420 \<rparr>) demoB)) = 440"
proof -
  have ab: "findBestPoints demoA demoB =
      \<lparr> best_from = \<lparr> p_x = 160, p_y = 300 \<rparr>, best_to = \<lparr> p_x = 300, p_y = 160 \<rparr> \<rparr>"
    by (simp add: findBestPoints_def getAnchors_def visit_None visit_hypot)
  have ba: "findBestPoints demoB demoA =
      \<lparr> best_from = \<lparr> p_x = 360, p_y = 220 \<rparr>, best_to = \<lparr> p_x = 220, p_y = 360 \<rparr> \<rparr>"
    by (simp add: findBestPoints_def getAnchors_def visit_None visit_hypot)
  have be: "findBestPoints demoB (demoB\<lparr> e_id := ''e'', e_x := 420 \<rparr>) =
      \<lparr> best_from = \<lparr> p_x = 420, p_y = 160 \<rparr>, best_to = \<lparr> p_x = 420, p_y = 160 \<rparr> \<rparr>"
    by (simp add: findBestPoints_def getAnchors_def visit_None visit_hypot)
  have eb: "findBestPoints (demoB\<lparr> e_id := ''e'', e_x := 420 \<rparr>) demoB =
      \<lparr> best_from = \<lparr> p_x = 420, p_y = 160 \<rparr>, best_to = \<lparr> p_x = 420, p_y = 160 \<rparr> \<rparr>"
    by (simp add: findBestPoints_def getAnchors_def visit_None visit_hypot)
  show ?thesis
    unfolding points_calculate symbols_calculate ab ba be eb by (simp add: hypot_def atan2_def)
qed

lemma hypot_eq_iff: "hypot a b = hypot c d \<longleftrightarrow> a\<^sup>2 + b\<^sup>2 = c\<^sup>2 + d\<^sup>2"
  by (simp add: hypot_def)

theorem connector_route_symmetry_witness:
  "\<lparr> p_x = 420, p_y = 160 \<rparr> = best_from (findBestPoints demoB demoD)
   \<and> \<lparr> p_x = 600, p_y = 160 \<rparr> = best_to (findBestPoints demoB demoD)
   \<and> \<lparr> p_x = 420, p_y = 160 \<rparr> \<noteq> \<lparr> p_x = 600, p_y = 160 \<rparr>
   \<and> points (calculateRelationshipRenderProps demoB demoD) = [420, 160, 600, 160]
   \<and> points (calculateRelationshipRenderProps demoD demoB) = [600, 160, 420, 160]
   \<and> s_x (startSymbolProps (calculateRelationshipRenderProps demoD demoB)) =
       s_x (endSymbolProps (calculateRelationshipRenderProps demoB demoD))
   \<and> s_y (endSymbolProps (calculateRelationshipRenderProps demoD demoB)) =
       s_y (startSymbolProps (calculateRelationshipRenderProps demoB demoD))"
proof -
  let ?f = "\<lparr> p_x = 420, p_y = 160 \<rparr>" and ?t = "\<lparr> p_x = 600, p_y = 160 \<rparr>"
  have bd: "findBestPoints demoB demoD = \<lparr> best_from = ?f, best_to = ?t \<rparr>"
    by (simp add: findBestPoints_def getAnchors_def visit_None visit_hypot)
  have f: "?f = best_from (findBestPoints demoB demoD)"
    and t: "?t = best_to (findBestPoints demoB demoD)"
    unfolding bd by simp_all
  have ne: "?f \<noteq> ?t"
    by simp
  have u: "\<forall>f' \<in> set (getAnchors demoB). \<forall>t' \<in> set (getAnchors demoD).
          hypot (p_x f' - p_x t') (p_y f' - p_y t') = hypot (p_x ?f - p_x ?t) (p_y ?f - p_y ?t)
            \<longrightarrow> f' = ?f \<and> t' = ?t"
    by (simp add: getAnchors_def hypot_eq_iff)
  note th = connector_route_symmetry [OF f t]
  note line = th [THEN conjunct2, THEN conjunct2, THEN conjunct2, THEN conjunct2, THEN conjunct2,
      THEN conjunct1]
  note sym = th [THEN conjunct2, THEN conjunct2, THEN conjunct2, THEN conjunct2, THEN conjunct2,
      THEN conjunct2, THEN mp, OF u]
  note rev = sym [THEN conjunct1]
  note mark = sym [THEN conjunct2, THEN mp, OF ne]
  note m1 = mark [THEN conjunct1]
  note m2 = mark [THEN conjunct2, THEN conjunct2, THEN conjunct2, THEN conjunct1]
  have line': "points (calculateRelationshipRenderProps demoB demoD) = [420, 160, 600, 160]"
    unfolding line by simp
  have rev': "points (calculateRelationshipRenderProps demoD demoB) = [600, 160, 420, 160]"
    unfolding rev by simp
  show ?thesis
    by (intro conjI f t ne line' rev' m1 m2)
qed

section \<open>Dragging a shape\<close>

lemma handleDragMove_only_stage:
  "handleDragMove nodeId pos c = c\<lparr> stage := stage (handleDragMove nodeId pos c) \<rparr>"
  by (simp add: handleDragMove_def Let_def split: option.splits)

lemma drag_moves_only_stage:
  "foldl (\<lambda>s pos. handleDragMove nodeId pos s) c positions =
     c\<lparr> stage := stage (foldl (\<lambda>s pos. handleDragMove nodeId pos s) c positions) \<rparr>"
proof (induction positions rule: rev_induct)
  case Nil
  show ?case by simp
next
  case (snoc pos positions)
  let ?d = "foldl (\<lambda>s pos. handleDragMove nodeId pos s) c positions"
  have "handleDragMove nodeId pos ?d = ?d\<lparr> stage := stage (handleDragMove nodeId pos ?d) \<rparr>"
    by (rule handleDragMove_only_stage)
  also have "\<dots> = c\<lparr> stage := stage (handleDragMove nodeId pos ?d) \<rparr>"
    by (subst snoc.IH) simp
  finally show ?case by simp
qed

lemma handleDragEnd_after_moves:
  assumes "d = c\<lparr> stage := st \<rparr>"
  shows "handleDragEnd nodeId nodeX nodeY d = (handleDragEnd nodeId nodeX nodeY c)\<lparr> stage := st \<rparr>"
  by (simp add: assms handleDragEnd_def setEntities_def updateState_def Let_def current_def)

lemma handleDragEnd_commits:
  assumes "hist_ok c"
  shows "commits_snapshot c
           \<lparr> entities = map (\<lambda>en. if e_id en = nodeId then en\<lparr> e_x := nodeX, e_y := nodeY \<rparr> else en)
                          (entities (current c)),
             relationships = relationships (current c) \<rparr>
           (handleDragEnd nodeId nodeX nodeY c)"
  using setEntities_commits [OF assms, of
      "\<lambda>prev. map (\<lambda>en. if e_id en = nodeId then en\<lparr> e_x := nodeX, e_y := nodeY \<rparr> else en) prev" c]
  by (simp add: handleDragEnd_def)

text \<open>One step of the redraw writes the group of its connector and no other.\<close>

lemma redrawRelationship_other:
  "k \<noteq> r_id rel \<Longrightarrow> redrawRelationship nodeId temp ents nodes rel k = nodes k"
  by (simp add: redrawRelationship_def Let_def split: option.splits)

lemma redraw_fold_other:
  "k \<notin> r_id ` set rels \<Longrightarrow> foldl (redrawRelationship nodeId temp ents) nodes rels k = nodes k"
  by (induction rels arbitrary: nodes) (simp_all add: redrawRelationship_other)

lemma redrawRelationship_touching:
  assumes "r_fromId rel = nodeId \<or> r_toId rel = nodeId"
    and "(if r_fromId rel = nodeId then Some temp else find (\<lambda>en. e_id en = r_fromId rel) ents) = Some f"
    and "(if r_toId rel = nodeId then Some temp else find (\<lambda>en. e_id en = r_toId rel) ents) = Some t"
    and "nodes (r_id rel) = Some lineGroup"
  shows "redrawRelationship nodeId temp ents nodes rel (r_id rel) =
     Some \<lparr> line_points =
              map_option (\<lambda>_. points (calculateRelationshipRenderProps f t)) (line_points lineGroup),
            start_cardinality =
              map_option (\<lambda>_. startSymbolProps (calculateRelationshipRenderProps f t))
                (start_cardinality lineGroup),
            end_cardinality =
              map_option (\<lambda>_. endSymbolProps (calculateRelationshipRenderProps f t))
                (end_cardinality lineGroup) \<rparr>"
  using assms by (simp add: redrawRelationship_def Let_def)

lemma redraw_fold_touching:
  assumes "distinct (map r_id rels)" "rel \<in> set rels"
    and "r_fromId rel = nodeId \<or> r_toId rel = nodeId"
    and "(if r_fromId rel = nodeId then Some temp else find (\<lambda>en. e_id en = r_fromId rel) ents) = Some f"
    and "(if r_toId rel = nodeId then Some temp else find (\<lambda>en. e_id en = r_toId rel) ents) = Some t"
    and "nodes (r_id rel) = Some lineGroup"
  shows "foldl (redrawRelationship nodeId temp ents) nodes rels (r_id rel) =
     Some \<lparr> line_points =
              map_option (\<lambda>_. points (calculateRelationshipRenderProps f t)) (line_points lineGroup),
            start_cardinality =
              map_option (\<lambda>_. startSymbolProps (calculateRelationshipRenderProps f t))
                (start_cardinality lineGroup),
            end_cardinality =
              map_option (\<lambda>_. endSymbolProps (calculateRelationshipRenderProps f t))
                (end_cardinality lineGroup) \<rparr>"
  using assms(1,2,6)
proof (induction rels arbitrary: nodes)
  case Nil
  then show ?case by simp
next
  case (Cons r rels)
  show ?case
  proof (cases "r = rel")
    case True
    have "r_id rel \<notin> r_id ` set rels"
      using Cons.prems(1) True by auto
    then have "foldl (redrawRelationship nodeId temp ents)
        (redrawRelationship nodeId temp ents nodes rel) rels (r_id rel) =
        redrawRelationship nodeId temp ents nodes rel (r_id rel)"
      by (rule redraw_fold_other)
    moreover have "redrawRelationship nodeId temp ents nodes rel (r_id rel) =
        Some \<lparr> line_points =
              map_option (\<lambda>_. points (calculateRelationshipRenderProps f t)) (line_points lineGroup),
            start_cardinality =
              map_option (\<lambda>_. startSymbolProps (calculateRelationshipRenderProps f t))
                (start_cardinality lineGroup),
            end_cardinality =
              map_option (\<lambda>_. endSymbolProps (calculateRelationshipRenderProps f t))
                (end_cardinality lineGroup) \<rparr>"
      using assms(3,4,5) Cons.prems(3) by (rule redrawRelationship_touching)
    ultimately show ?thesis
      using True by simp
  next
    case False
    then have mem: "rel \<in> set rels"
      using Cons.prems(2) by simp
    have "r_id r \<noteq> r_id rel"
      using Cons.prems(1) mem by auto
    then have "redrawRelationship nodeId temp ents nodes r (r_id rel) = Some lineGroup"
      using Cons.prems(3) by (simp add: redrawRelationship_other)
    then show ?thesis
      using Cons.IH [of "redrawRelationship nodeId temp ents nodes r"] Cons.prems(1) mem by simp
  qed
qed

lemma handleDragMove_redraws:
  assumes "stage c = Some nodes"
    and "find (\<lambda>en. e_id en = nodeId) (entities (current c)) = Some dragged"
    and "distinct (map r_id (relationships (current c)))"
    and "rel \<in> set (relationships (current c))"
    and "r_fromId rel = nodeId \<or> r_toId rel = nodeId"
    and "(if r_fromId rel = nodeId
          then Some (dragged\<lparr> e_x := p_x currentPos, e_y := p_y currentPos \<rparr>)
          else find (\<lambda>en. e_id en = r_fromId rel) (entities (current c))) = Some f"
    and "(if r_toId rel = nodeId
          then Some (dragged\<lparr> e_x := p_x currentPos, e_y := p_y currentPos \<rparr>)
          else find (\<lambda>en. e_id en = r_toId rel) (entities (current c))) = Some t"
    and "nodes (r_id rel) = Some lineGroup"
  shows "\<exists>nodes'. stage (handleDragMove nodeId currentPos c) = Some nodes'
     \<and> nodes' (r_id rel) =
         Some \<lparr> line_points =
                  map_option (\<lambda>_. points (calculateRelationshipRenderProps f t)) (line_points lineGroup),
                start_cardinality =
                  map_option (\<lambda>_. startSymbolProps (calculateRelationshipRenderProps f t))
                    (start_cardinality lineGroup),
                end_cardinality =
                  map_option (\<lambda>_. endSymbolProps (calculateRelationshipRenderProps f t))
                    (end_cardinality lineGroup) \<rparr>"
proof -
  have "foldl (redrawRelationship nodeId (dragged\<lparr> e_x := p_x currentPos, e_y := p_y currentPos \<rparr>)
           (entities (current c))) nodes (relationships (current c)) (r_id rel) =
         Some \<lparr> line_points =
                  map_option (\<lambda>_. points (calculateRelationshipRenderProps f t)) (line_points lineGroup),
                start_cardinality =
                  map_option (\<lambda>_. startSymbolProps (calculateRelationshipRenderProps f t))
                    (start_cardinality lineGroup),
                end_cardinality =
                  map_option (\<lambda>_. endSymbolProps (calculateRelationshipRenderProps f t))
                    (end_cardinality lineGroup) \<rparr>"
    using assms(3,4,5,6,7,8) by (rule redraw_fold_touching)
  then show ?thesis
    by (simp add: handleDragMove_def assms(1,2) Let_def)
qed

text \<open>
  C4. A drag is any number of pointer moves followed by the release. The moves change
  nothing but the canvas stage: the history and its cursor are those from before the
  drag. The release commits one snapshot, which becomes the last entry of the history; in
  it every shape with the dragged id sits at the release position, every other shape and
  every connection is as before. A single move sets the drawn nodes of every connector
  that touches the dragged shape, and whose two ends are found, to the route computed
  with the dragged shape at the pointer position.
\<close>

theorem drag_commits_once:
  "hist_ok c \<Longrightarrow> d = foldl (\<lambda>s pos. handleDragMove nodeId pos s) c positions \<Longrightarrow>
   c' = handleDragEnd nodeId nodeX nodeY d \<Longrightarrow>
     d = c\<lparr> stage := stage d \<rparr>
   \<and> commits_snapshot c (current c') c'
   \<and> length (history c') = historyIndex c + 2
   \<and> length (entities (current c')) = length (entities (current c))
   \<and> (\<forall>i < length (entities (current c)).
         (e_id (entities (current c) ! i) = nodeId \<longrightarrow>
            entities (current c') ! i = (entities (current c) ! i)\<lparr> e_x := nodeX, e_y := nodeY \<rparr>)
       \<and> (e_id (entities (current c) ! i) \<noteq> nodeId \<longrightarrow>
            entities (current c') ! i = entities (current c) ! i))
   \<and> relationships (current c') = relationships (current c)
   \<and> (stage c = Some nodes
        \<and> find (\<lambda>en. e_id en = nodeId) (entities (current c)) = Some dragged
        \<and> distinct (map r_id (relationships (current c)))
        \<and> rel \<in> set (relationships (current c))
        \<and> (r_fromId rel = nodeId \<or> r_toId rel = nodeId)
        \<and> (if r_fromId rel = nodeId
            then Some (dragged\<lparr> e_x := p_x currentPos, e_y := p_y currentPos \<rparr>)
            else find (\<lambda>en. e_id en = r_fromId rel) (entities (current c))) = Some f
        \<and> (if r_toId rel = nodeId
            then Some (dragged\<lparr> e_x := p_x currentPos, e_y := p_y currentPos \<rparr>)
            else find (\<lambda>en. e_id en = r_toId rel) (entities (current c))) = Some t
        \<and> nodes (r_id rel) = Some lineGroup \<longrightarrow>
        (\<exists>nodes'. stage (handleDragMove nodeId currentPos c) = Some nodes'
           \<and> nodes' (r_id rel) =
               Some \<lparr> line_points =
                        map_option (\<lambda>_. points (calculateRelationshipRenderProps f t))
                          (line_points lineGroup),
                      start_cardinality =
                        map_option (\<lambda>_. startSymbolProps (calculateRelationshipRenderProps f t))
                          (start_cardinality lineGroup),
                      end_cardinality =
                        map_option (\<lambda>_. endSymbolProps (calculateRelationshipRenderProps f t))
                          (end_cardinality lineGroup) \<rparr>))"
proof -
  assume h: "hist_ok c"
    and d: "d = foldl (\<lambda>s pos. handleDragMove nodeId pos s) c positions"
    and c': "c' = handleDragEnd nodeId nodeX nodeY d"
  let ?snap = "\<lparr> entities = map (\<lambda>en. if e_id en = nodeId then en\<lparr> e_x := nodeX, e_y := nodeY \<rparr> else en)
                          (entities (current c)),
             relationships = relationships (current c) \<rparr>"
  have only: "d = c\<lparr> stage := stage d \<rparr>"
    unfolding d by (rule drag_moves_only_stage)
  have end_eq: "c' = (handleDragEnd nodeId nodeX nodeY c)\<lparr> stage := stage d \<rparr>"
    unfolding c' by (rule handleDragEnd_after_moves [OF only])
  have com: "commits_snapshot c ?snap c'"
    unfolding end_eq using handleDragEnd_commits [OF h, where nodeId = nodeId and nodeX = nodeX and nodeY = nodeY] by simp
  have cur: "current c' = ?snap"
    by (rule commits_snapshot_current [OF h com])
  have c2: "commits_snapshot c (current c') c'"
    unfolding cur by (rule com)
  have len: "length (history c') = historyIndex c + 2"
    using com h by (simp add: commits_snapshot_def hist_ok_def)
  have ents: "\<forall>i < length (entities (current c)).
         (e_id (entities (current c) ! i) = nodeId \<longrightarrow>
            entities (current c') ! i = (entities (current c) ! i)\<lparr> e_x := nodeX, e_y := nodeY \<rparr>)
       \<and> (e_id (entities (current c) ! i) \<noteq> nodeId \<longrightarrow>
            entities (current c') ! i = entities (current c) ! i)"
    by (simp add: cur)
  have redraw: "\<exists>nodes'. stage (handleDragMove nodeId currentPos c) = Some nodes'
           \<and> nodes' (r_id rel) =
               Some \<lparr> line_points =
                        map_option (\<lambda>_. points (calculateRelationshipRenderProps f t))
                          (line_points lineGroup),
                      start_cardinality =
                        map_option (\<lambda>_. startSymbolProps (calculateRelationshipRenderProps f t))
                          (start_cardinality lineGroup),
                      end_cardinality =
                        map_option (\<lambda>_. endSymbolProps (calculateRelationshipRenderProps f t))
                          (end_cardinality lineGroup) \<rparr>"
    if "stage c = Some nodes
        \<and> find (\<lambda>en. e_id en = nodeId) (entities (current c)) = Some dragged
        \<and> distinct (map r_id (relationships (current c)))
        \<and> rel \<in> set (relationships (current c))
        \<and> (r_fromId rel = nodeId \<or> r_toId rel = nodeId)
        \<and> (if r_fromId rel = nodeId
            then Some (dragged\<lparr> e_x := p_x currentPos, e_y := p_y currentPos \<rparr>)
            else find (\<lambda>en. e_id en = r_fromId rel) (entities (current c))) = Some f
        \<and> (if r_toId rel = nodeId
            then Some (dragged\<lparr> e_x := p_x currentPos, e_y := p_y currentPos \<rparr>)
            else find (\<lambda>en. e_id en = r_toId rel) (entities (current c))) = Some t
        \<and> nodes (r_id rel) = Some lineGroup"
  proof -
    have "stage c = Some nodes"
      and "find (\<lambda>en. e_id en = nodeId) (entities (current c)) = Some dragged"
      and "distinct (map r_id (relationships (current c)))"
      and "rel \<in> set (relationships (current c))"
      and "r_fromId rel = nodeId \<or> r_toId rel = nodeId"
      and "(if r_fromId rel = nodeId
            then Some (dragged\<lparr> e_x := p_x currentPos, e_y := p_y currentPos \<rparr>)
            else find (\<lambda>en. e_id en = r_fromId rel) (entities (current c))) = Some f"
      and "(if r_toId rel = nodeId
            then Some (dragged\<lparr> e_x := p_x currentPos, e_y := p_y currentPos \<rparr>)
            else find (\<lambda>en. e_id en = r_toId rel) (entities (current c))) = Some t"
      and "nodes (r_id rel) = Some lineGroup"
      using that by blast+
    then show ?thesis
      by (rule handleDragMove_redraws)
  qed
  show ?thesis
    using only c2 len ents redraw by (simp add: cur)
qed


theorem drag_commits_once_witness:
  "hist_ok demoDrawn
   \<and> history (foldl (\<lambda>s pos. handleDragMove ''a'' pos s) demoDrawn
         [\<lparr> p_x = 110, p_y = 310 \<rparr>, \<lparr> p_x = 150, p_y = 350 \<rparr>]) = history demoState
   \<and> historyIndex (foldl (\<lambda>s pos. handleDragMove ''a'' pos s) demoDrawn
         [\<lparr> p_x = 110, p_y = 310 \<rparr>, \<lparr> p_x = 150, p_y = 350 \<rparr>]) = 1
   \<and> length (history (handleDragEnd ''a'' 200 400
         (foldl (\<lambda>s pos. handleDragMove ''a'' pos s) demoDrawn
            [\<lparr> p_x = 110, p_y = 310 \<rparr>, \<lparr> p_x = 150, p_y = 350 \<rparr>]))) = 3
   \<and> historyIndex (handleDragEnd ''a'' 200 400
         (foldl (\<lambda>s pos. handleDragMove ''a'' pos s) demoDrawn
            [\<lparr> p_x = 110, p_y = 310 \<rparr>, \<lparr> p_x = 150, p_y = 350 \<rparr>])) = 2
   \<and> entities (current (handleDragEnd ''a'' 200 400
         (foldl (\<lambda>s pos. handleDragMove ''a'' pos s) demoDrawn
            [\<lparr> p_x = 110, p_y = 310 \<rparr>, \<lparr> p_x = 150, p_y = 350 \<rparr>]))) ! 0 =
       demoA\<lparr> e_x := 200, e_y := 400 \<rparr>
   \<and> entities (current (handleDragEnd ''a'' 200 400
         (foldl (\<lambda>s pos. handleDragMove ''a'' pos s) demoDrawn
            [\<lparr> p_x = 110, p_y = 310 \<rparr>, \<lparr> p_x = 150, p_y = 350 \<rparr>]))) ! 1 = demoB
   \<and> relationships (current (handleDragEnd ''a'' 200 400
         (foldl (\<lambda>s pos. handleDragMove ''a'' pos s) demoDrawn
            [\<lparr> p_x = 110, p_y = 310 \<rparr>, \<lparr> p_x = 150, p_y = 350 \<rparr>]))) = [demoAB, demoBC]
   \<and> (\<exists>nodes'. stage (handleDragMove ''a'' \<lparr> p_x = 150, p_y = 350 \<rparr> demoDrawn) = Some nodes'
         \<and> nodes' ''r1'' = Some \<lparr> line_points = Some [210, 350, 360, 220],
                                   start_cardinality = None, end_cardinality = None \<rparr>)"
proof -
  let ?d = "foldl (\<lambda>s pos. handleDragMove ''a'' pos s) demoDrawn
         [\<lparr> p_x = 110, p_y = 310 \<rparr>, \<lparr> p_x = 150, p_y = 350 \<rparr>]"
  let ?c' = "handleDragEnd ''a'' 200 400 ?d"
  let ?lg = "\<lparr> line_points = Some [160, 300, 300, 160],
      start_cardinality = None, end_cardinality = None \<rparr>"
  let ?temp = "demoA\<lparr> e_x := 150, e_y := 350 \<rparr>"
  have h: "hist_ok demoDrawn"
    by (simp add: hist_ok_def)
  have cur: "entities (current demoDrawn) = [demoA, demoB, demoC]"
    "relationships (current demoDrawn) = [demoAB, demoBC]"
    "historyIndex demoDrawn = 1" "history demoDrawn = history demoState"
    by (simp_all add: current_def)
  note th = drag_commits_once [OF h refl refl, where nodeId = "''a''"
      and positions = "[\<lparr> p_x = 110, p_y = 310 \<rparr>, \<lparr> p_x = 150, p_y = 350 \<rparr>]"
      and nodeX = 200 and nodeY = 400
      and nodes = "[''r1'' \<mapsto> ?lg]" and dragged = demoA and rel = demoAB
      and currentPos = "\<lparr> p_x = 150, p_y = 350 \<rparr>" and f = ?temp and t = demoB
      and lineGroup = ?lg]
  note only = th [THEN conjunct1]
  note com = th [THEN conjunct2, THEN conjunct1]
  note len = th [THEN conjunct2, THEN conjunct2, THEN conjunct1]
  note ents = th [THEN conjunct2, THEN conjunct2, THEN conjunct2, THEN conjunct2, THEN conjunct1]
  note rels = th [THEN conjunct2, THEN conjunct2, THEN conjunct2, THEN conjunct2, THEN conjunct2,
      THEN conjunct1]
  note redraw = th [THEN conjunct2, THEN conjunct2, THEN conjunct2, THEN conjunct2, THEN conjunct2,
      THEN conjunct2]
  have w1: "history ?d = history demoState"
    by (subst only) simp
  have w2: "historyIndex ?d = 1"
    by (subst only) simp
  have w3: "length (history ?c') = 3"
    using len unfolding cur by simp
  have w4: "historyIndex ?c' = 2"
    using com unfolding commits_snapshot_def cur by simp
  have w5: "entities (current ?c') ! 0 = demoA\<lparr> e_x := 200, e_y := 400 \<rparr>"
    using ents [THEN spec, of 0] unfolding cur by simp
  have w6: "entities (current ?c') ! 1 = demoB"
    using ents [THEN spec, of 1] unfolding cur by simp
  have w7: "relationships (current ?c') = [demoAB, demoBC]"
    using rels unfolding cur by simp
  have pre: "stage demoDrawn = Some [''r1'' \<mapsto> ?lg]
        \<and> find (\<lambda>en. e_id en = ''a'') (entities (current demoDrawn)) = Some demoA
        \<and> distinct (map r_id (relationships (current demoDrawn)))
        \<and> demoAB \<in> set (relationships (current demoDrawn))
        \<and> (r_fromId demoAB = ''a'' \<or> r_toId demoAB = ''a'')
        \<and> (if r_fromId demoAB = ''a''
            then Some (demoA\<lparr> e_x := p_x \<lparr> p_x = 150, p_y = 350 \<rparr>, e_y := p_y \<lparr> p_x = 150, p_y = 350 \<rparr> \<rparr>)
            else find (\<lambda>en. e_id en = r_fromId demoAB) (entities (current demoDrawn))) = Some ?temp
        \<and> (if r_toId demoAB = ''a''
            then Some (demoA\<lparr> e_x := p_x \<lparr> p_x = 150, p_y = 350 \<rparr>, e_y := p_y \<lparr> p_x = 150, p_y = 350 \<rparr> \<rparr>)
            else find (\<lambda>en. e_id en = r_toId demoAB) (entities (current demoDrawn))) = Some demoB
        \<and> [''r1'' \<mapsto> ?lg] (r_id demoAB) = Some ?lg"
    unfolding cur by simp
  have best: "findBestPoints ?temp demoB =
      \<lparr> best_from = \<lparr> p_x = 210, p_y = 350 \<rparr>, best_to = \<lparr> p_x = 360, p_y = 220 \<rparr> \<rparr>"
    by (simp add: findBestPoints_def getAnchors_def visit_None visit_hypot)
  have pts: "points (calculateRelationshipRenderProps ?temp demoB) = [210, 350, 360, 220]"
    unfolding points_calculate best by simp
  have w8: "\<exists>nodes'. stage (handleDragMove ''a'' \<lparr> p_x = 150, p_y = 350 \<rparr> demoDrawn) = Some nodes'
         \<and> nodes' ''r1'' = Some \<lparr> line_points = Some [210, 350, 360, 220],
                                   start_cardinality = None, end_cardinality = None \<rparr>"
    using redraw [THEN mp, OF pre] unfolding pts by simp
  show ?thesis
    by (intro conjI h w1 w2 w3 w4 w5 w6 w7 w8)
qed

section \<open>Invariants of the reachable states\<close>

lemma state_ok_initialState: "state_ok initialState"
  by (simp add: state_ok_def hist_ok_def graph_ok_def initialState_def truthy_def)

lemma state_ok_commit:
  assumes "state_ok c" "commits_snapshot c snap s" "graph_ok snap"
    "active (relationshipCreation s) \<longrightarrow> \<not> truthy (editingEntityId s)"
  shows "state_ok s"
proof -
  have "set (take (Suc (historyIndex c)) (history c)) \<subseteq> set (history c)"
    by (rule set_take_subset)
  then have "\<forall>x \<in> set (history s). graph_ok x"
    using assms(1,2,3) by (auto simp add: state_ok_def commits_snapshot_def)
  moreover have "hist_ok s"
    using assms(1,2) commits_snapshot_hist_ok [of c snap s] by (simp add: state_ok_def)
  ultimately show ?thesis
    using assms(4) by (simp add: state_ok_def)
qed

lemma state_ok_cursor:
  assumes "state_ok c" "history s = history c" "historyIndex s < length (history c)"
    "active (relationshipCreation s) \<longrightarrow> \<not> truthy (editingEntityId s)"
  shows "state_ok s"
  using assms by (simp add: state_ok_def hist_ok_def)

lemma state_ok_current: "state_ok c \<Longrightarrow> graph_ok (current c)"
  by (simp add: state_ok_def hist_ok_def current_def)

lemma endpoints_cycleRelationship [simp]:
  "endpoints (cycleRelationship rid point rel) = endpoints rel"
  by (simp add: endpoints_def cycleRelationship_def)

lemma graph_ok_entities [simp]:
  "graph_ok \<lparr> entities = ents, relationships = rels \<rparr> = graph_ok \<lparr> entities = ents', relationships = rels \<rparr>"
  by (simp add: graph_ok_def)

lemma graph_ok_same_relationships:
  "graph_ok x \<Longrightarrow> graph_ok \<lparr> entities = ents, relationships = relationships x \<rparr>"
  by (simp add: graph_ok_def)

lemma graph_ok_filter:
  "graph_ok x \<Longrightarrow> graph_ok \<lparr> entities = ents, relationships = filter P (relationships x) \<rparr>"
  by (simp add: graph_ok_def distinct_map_filter)

lemma cycleRelationship_ends [simp]:
  "r_fromId (cycleRelationship rid point rel) = r_fromId rel"
  "r_toId (cycleRelationship rid point rel) = r_toId rel"
  by (simp_all add: cycleRelationship_def)

lemma graph_ok_cycle:
  assumes "graph_ok x"
  shows "graph_ok \<lparr> entities = ents, relationships = map (cycleRelationship rid point) (relationships x) \<rparr>"
proof -
  have "map endpoints (map (cycleRelationship rid point) (relationships x)) =
        map endpoints (relationships x)"
    by (simp add: comp_def)
  then show ?thesis
    using assms unfolding graph_ok_def by (simp del: map_map)
qed

lemma graph_ok_append:
  assumes "graph_ok x" "a \<noteq> b" "\<forall>rel \<in> set (relationships x). endpoints rel \<noteq> {a, b}"
  shows "graph_ok \<lparr> entities = ents,
      relationships = relationships x @
        [\<lparr> r_id = newId, r_fromId = a, r_toId = b, r_startCardinality = sc, r_endCardinality = ec \<rparr>] \<rparr>"
proof -
  have "endpoints \<lparr> r_id = newId, r_fromId = a, r_toId = b, r_startCardinality = sc, r_endCardinality = ec \<rparr> = {a, b}"
    by (simp add: endpoints_def)
  then show ?thesis
    using assms by (auto simp add: graph_ok_def)
qed

lemma state_ok_update [simp]:
  "state_ok (s\<lparr> selectedEntityId := e \<rparr>) = state_ok s"
  "state_ok (s\<lparr> selectedRelationshipId := e \<rparr>) = state_ok s"
  "state_ok (s\<lparr> alerts := al \<rparr>) = state_ok s"
  "state_ok (s\<lparr> stage := st \<rparr>) = state_ok s"
  "state_ok (s\<lparr> showCardinality := b \<rparr>) = state_ok s"
  by (simp_all add: state_ok_def hist_ok_def)

lemma state_ok_editing_None: "state_ok s \<Longrightarrow> state_ok (s\<lparr> editingEntityId := None \<rparr>)"
  by (simp add: state_ok_def hist_ok_def truthy_def)

lemma state_ok_inactive:
  "state_ok s \<Longrightarrow> state_ok (s\<lparr> relationshipCreation := \<lparr> active = False, fromId = x \<rparr> \<rparr>)"
  by (simp add: state_ok_def hist_ok_def)

lemma state_ok_inactive_editing:
  "state_ok s \<Longrightarrow>
     state_ok (s\<lparr> relationshipCreation := \<lparr> active = False, fromId = x \<rparr>, editingEntityId := e \<rparr>)"
  by (simp add: state_ok_def hist_ok_def)

lemma state_ok_updateState:
  assumes "state_ok c"
    and "graph_ok \<lparr> entities = apply_updater eu (entities (current c)),
                     relationships = apply_updater ru (relationships (current c)) \<rparr>"
    and "active (relationshipCreation s) \<longrightarrow> \<not> truthy (editingEntityId s)"
  shows "state_ok (updateState eu ru c s)"
proof (rule state_ok_commit [OF assms(1) _ assms(2)])
  show "commits_snapshot c \<lparr> entities = apply_updater eu (entities (current c)),
                     relationships = apply_updater ru (relationships (current c)) \<rparr>
      (updateState eu ru c s)"
    using assms(1) by (simp add: commits_snapshot_updateState state_ok_def)
  show "active (relationshipCreation (updateState eu ru c s)) \<longrightarrow>
      \<not> truthy (editingEntityId (updateState eu ru c s))"
    using assms(3) by (simp add: updateState_def Let_def)
qed

lemma state_ok_ui: "state_ok c \<Longrightarrow> active (relationshipCreation c) \<longrightarrow> \<not> truthy (editingEntityId c)"
  by (simp add: state_ok_def)

lemma state_ok_setEntities:
  assumes "state_ok c" "active (relationshipCreation s) \<longrightarrow> \<not> truthy (editingEntityId s)"
  shows "state_ok (setEntities f c s)"
  unfolding setEntities_def
  using assms(1) graph_ok_same_relationships [OF state_ok_current [OF assms(1)]] assms(2)
  by (intro state_ok_updateState) simp_all

lemma state_ok_handleFinishEditing:
  assumes "state_ok c"
  shows "state_ok (handleFinishEditing textarea c c)"
proof (cases "\<exists>newName. textarea = Some newName \<and> truthy (editingEntityId c)")
  case False
  then have "handleFinishEditing textarea c c = c"
    by (auto simp add: handleFinishEditing_def split: option.splits)
  then show ?thesis using assms by simp
next
  case True
  then obtain newName where t: "textarea = Some newName" "truthy (editingEntityId c)"
    by blast
  have "state_ok (setEntities
      (\<lambda>prev. map (\<lambda>e. if Some (e_id e) = editingEntityId c then e\<lparr> e_name := newName \<rparr> else e) prev)
      c c)"
    by (rule state_ok_setEntities [OF assms state_ok_ui [OF assms]])
  then show ?thesis
    using t by (simp add: handleFinishEditing_def state_ok_editing_None)
qed

lemma handleFinishEditing_ui:
  "relationshipCreation (handleFinishEditing textarea c c) = relationshipCreation c"
  "editingEntityId (handleFinishEditing textarea c c) = None
     \<or> editingEntityId (handleFinishEditing textarea c c) = editingEntityId c"
  by (simp_all add: handleFinishEditing_def setEntities_def updateState_def Let_def
      split: option.splits)

lemma state_ok_step:
  assumes "state_ok c"
  shows "state_ok (step ev c)"
proof (cases ev)
  case (AddEntity type container newId)
  have "state_ok (handleAddEntity type container newId c)"
    unfolding handleAddEntity_def
    using assms graph_ok_same_relationships [OF state_ok_current [OF assms]] state_ok_ui [OF assms]
    by (intro state_ok_updateState) simp_all
  then show ?thesis using AddEntity by simp
next
  case Undo
  have "state_ok (handleUndo c)"
    using assms by (auto simp add: handleUndo_def state_ok_def hist_ok_def)
  then show ?thesis using Undo by simp
next
  case Redo
  have "state_ok (handleRedo c)"
    using assms by (auto simp add: handleRedo_def state_ok_def hist_ok_def)
  then show ?thesis using Redo by simp
next
  case DeleteSelected
  have "state_ok (handleDeleteSelected c)"
    unfolding handleDeleteSelected_def
    using assms graph_ok_filter [OF state_ok_current [OF assms]] state_ok_ui [OF assms]
    by (auto intro!: state_ok_updateState)
  then show ?thesis using DeleteSelected by simp
next
  case ToggleRelationshipCreation
  have "state_ok (toggleRelationshipCreation c)"
    using assms by (simp add: toggleRelationshipCreation_def state_ok_def hist_ok_def truthy_def)
  then show ?thesis using ToggleRelationshipCreation by simp
next
  case ToggleShowCardinality
  then show ?thesis using assms by (simp add: toggleShowCardinality_def)
next
  case ExportImage
  then show ?thesis using assms by (simp add: handleExportImage_def state_ok_editing_None)
next
  case (DragMove nodeId currentPos)
  have "state_ok (handleDragMove nodeId currentPos c)"
    by (subst handleDragMove_only_stage) (simp add: assms)
  then show ?thesis using DragMove by simp
next
  case (DragEnd nodeId nodeX nodeY)
  have "state_ok (handleDragEnd nodeId nodeX nodeY c)"
    unfolding handleDragEnd_def by (rule state_ok_setEntities [OF assms state_ok_ui [OF assms]])
  then show ?thesis using DragEnd by simp
next
  case (EntityClick ident textarea newId)
  define s where "s = (if truthy (editingEntityId c)
               then (handleFinishEditing textarea c c)\<lparr> editingEntityId := None \<rparr>
               else c)"
  have s_ok: "state_ok s"
    unfolding s_def using assms
    by (simp add: state_ok_handleFinishEditing state_ok_editing_None)
  have s_ed: "\<not> truthy (editingEntityId s)"
    unfolding s_def by (simp add: truthy_def)
  have s_hist: "hist_ok s"
    using s_ok by (simp add: state_ok_def)
  have "state_ok (handleEntityClick ident textarea newId c)"
  proof (cases "active (relationshipCreation c) \<and> truthy (fromId (relationshipCreation c))
      \<and> fromId (relationshipCreation c) \<noteq> Some ident")
    case False
    then consider (select) "\<not> active (relationshipCreation c)"
      | (source) "active (relationshipCreation c)" "\<not> truthy (fromId (relationshipCreation c))"
      | (self) "active (relationshipCreation c)" "truthy (fromId (relationshipCreation c))"
          "fromId (relationshipCreation c) = Some ident"
      by blast
    then show ?thesis
    proof cases
      case select
      then have "handleEntityClick ident textarea newId c =
          s\<lparr> selectedRelationshipId := None, selectedEntityId := Some ident \<rparr>"
        unfolding s_def by (simp add: handleEntityClick_def Let_def)
      then show ?thesis using s_ok by simp
    next
      case source
      then have "handleEntityClick ident textarea newId c =
          s\<lparr> selectedEntityId := None,
             relationshipCreation := \<lparr> active = True, fromId = Some ident \<rparr> \<rparr>"
        unfolding s_def by (simp add: handleEntityClick_def Let_def)
      then show ?thesis
        using s_ok s_ed by (simp add: state_ok_def hist_ok_def)
    next
      case self
      then have "handleEntityClick ident textarea newId c = s"
        unfolding s_def by (simp add: handleEntityClick_def Let_def)
      then show ?thesis using s_ok by simp
    qed
  next
    case True
    then obtain a where a: "fromId (relationshipCreation c) = Some a" "a \<noteq> []" "a \<noteq> ident"
      and act: "active (relationshipCreation c)"
      by (auto simp add: truthy_def split: option.splits)
    show ?thesis
    proof (cases "list_ex (\<lambda>rel. (r_fromId rel = a \<and> r_toId rel = ident)
                                \<or> (r_fromId rel = ident \<and> r_toId rel = a))
                    (relationships (current c))")
      case True
      then have "handleEntityClick ident textarea newId c =
          s\<lparr> alerts := alerts s @ [RelationshipAlreadyExists],
             relationshipCreation := \<lparr> active = False, fromId = None \<rparr> \<rparr>"
        using a act unfolding s_def by (simp add: handleEntityClick_def Let_def truthy_def)
      then show ?thesis
        using s_ok by (simp add: state_ok_inactive)
    next
      case False
      then have free: "\<forall>rel \<in> set (relationships (current c)). endpoints rel \<noteq> {a, ident}"
        by (auto simp add: list_ex_iff endpoints_def doubleton_eq_iff)
      have eq: "handleEntityClick ident textarea newId c =
          (setRelationships (\<lambda>prev. prev @
             [\<lparr> r_id = newId, r_fromId = a, r_toId = ident,
                r_startCardinality = ONE_AND_ONLY_ONE, r_endCardinality = ONE_AND_ONLY_ONE \<rparr>]) c s)
          \<lparr> relationshipCreation := \<lparr> active = False, fromId = None \<rparr> \<rparr>"
        using False a act unfolding s_def by (simp add: handleEntityClick_def Let_def truthy_def)
      have "state_ok (setRelationships (\<lambda>prev. prev @
             [\<lparr> r_id = newId, r_fromId = a, r_toId = ident,
                r_startCardinality = ONE_AND_ONLY_ONE, r_endCardinality = ONE_AND_ONLY_ONE \<rparr>]) c s)"
        unfolding setRelationships_def
        using assms graph_ok_append [OF state_ok_current [OF assms] a(3) free] s_ed
        by (intro state_ok_updateState) simp_all
      then show ?thesis
        unfolding eq by (rule state_ok_inactive)
    qed
  qed
  then show ?thesis using EntityClick by simp
next
  case (EntityDblClick ident)
  then show ?thesis
    using assms by (simp add: handleEntityDblClick_def state_ok_def hist_ok_def)
next
  case (RelationshipSelect ident textarea)
  have "state_ok (handleRelationshipSelect ident textarea c)"
    using assms state_ok_handleFinishEditing [OF assms, of textarea]
    by (simp add: handleRelationshipSelect_def state_ok_def hist_ok_def)
  then show ?thesis using RelationshipSelect by simp
next
  case (CardinalityChange relationshipId symbolName)
  have "state_ok (handleCardinalityChange relationshipId symbolName c)"
    unfolding handleCardinalityChange_def setRelationships_def Let_def
    using assms graph_ok_cycle [OF state_ok_current [OF assms]] state_ok_ui [OF assms]
    by (auto intro!: state_ok_updateState split: option.splits)
  then show ?thesis using CardinalityChange by simp
next
  case (StageClick targetIsStage textarea)
  have "state_ok (handleStageClick targetIsStage textarea c)"
    using assms state_ok_handleFinishEditing [OF assms, of textarea]
    by (simp add: handleStageClick_def state_ok_def hist_ok_def)
  then show ?thesis using StageClick by simp
next
  case (FinishEditing textarea)
  then show ?thesis
    using state_ok_handleFinishEditing [OF assms] by simp
next
  case (TextareaKeyDown key shiftKey textarea)
  have "state_ok (handleTextareaKeyDown key shiftKey textarea c)"
    using assms state_ok_handleFinishEditing [OF assms, of textarea]
    by (simp add: handleTextareaKeyDown_def Let_def state_ok_editing_None)
  then show ?thesis using TextareaKeyDown by simp
qed

text \<open>
  Every state that the editor reaches from its initial state has its cursor in range, has
  no rename open while the connection mode is on, and holds only snapshots without
  self-connections and without two connections for one pair of shapes. The hypotheses
  \<open>hist_ok\<close> and \<open>\<not> truthy (editingEntityId c)\<close> of the theorems above hold there.
\<close>

lemma reachable_state_ok: "reachable c \<Longrightarrow> state_ok c"
  by (induction rule: reachable.induct) (simp_all add: state_ok_initialState state_ok_step)

lemma reachable_hist_ok: "reachable c \<Longrightarrow> hist_ok c"
  using reachable_state_ok by (simp add: state_ok_def)

lemma reachable_connecting_not_editing:
  "reachable c \<Longrightarrow> active (relationshipCreation c) \<Longrightarrow> \<not> truthy (editingEntityId c)"
  using reachable_state_ok by (simp add: state_ok_def)

lemma reachable_graph_ok: "reachable c \<Longrightarrow> graph_ok (current c)"
  using reachable_state_ok state_ok_current by blast

end
